theory Spec2Isabelle
  imports Main "HOL-Library.Sublist" "HOL-Library.Char_ord" "HOL-Library.List_Lexorder"
begin

section \<open>Python values and exceptions\<close>

text \<open>
  The program is a Python script. Every exception it can raise is a value of \<open>exn\<close>;
  \<open>JSONDecodeError\<close> stands for the \<open>ValueError\<close> subclass raised by the JSON decoder,
  \<open>RequestException\<close> for any transport failure of the HTTP library, \<open>HTTPError\<close> for
  the exception of \<open>raise_for_status\<close>, \<open>ShutilError\<close> for \<open>shutil.Error\<close>,
  \<open>SameFileError\<close> for its subclass of that name, and \<open>OSError\<close> for the remaining
  operating-system failures.
\<close>

datatype exn =
    KeyError | TypeError | ValueError | IndexError | AssertionError | UnboundLocalError
  | JSONDecodeError | BadZipFile
  | FileExistsError | FileNotFoundError | IsADirectoryError | NotADirectoryError | OSError
  | ShutilError | SameFileError | HTTPError | RequestException | RecursionError

text \<open>
  A decoded JSON document. \<open>JFloat m e\<close> stands for the double \<open>m * 2 ^ e\<close>; an object is
  the association list of the decoded \<open>dict\<close>, looked up by first match.
\<close>

datatype json =
    JNull | JBool bool | JInt int | JFloat int int | JStr string
  | JArr "json list" | JObj "(string \<times> json) list"

text \<open>Python truth value of a decoded JSON value (\<open>if x:\<close>, \<open>not x\<close>).\<close>

fun truthy :: "json \<Rightarrow> bool" where
  "truthy JNull = False"
| "truthy (JBool b) = b"
| "truthy (JInt i) = (i \<noteq> 0)"
| "truthy (JFloat m e) = (m \<noteq> 0)"
| "truthy (JStr s) = (s \<noteq> [])"
| "truthy (JArr xs) = (xs \<noteq> [])"
| "truthy (JObj kvs) = (kvs \<noteq> [])"

text \<open>\<open>v[key]\<close> with a string key: only a \<open>dict\<close> supports it.\<close>

fun subscr :: "json \<Rightarrow> string \<Rightarrow> exn + json" where
  "subscr (JObj kvs) k = (case map_of kvs k of None \<Rightarrow> Inl KeyError | Some v \<Rightarrow> Inr v)"
| "subscr v k = Inl TypeError"

text \<open>Does the string \<open>k\<close> occur in \<open>s\<close> as a substring (\<open>k in s\<close> on two \<open>str\<close>)?\<close>

fun substring :: "string \<Rightarrow> string \<Rightarrow> bool" where
  "substring k [] = (k = [])"
| "substring k (c # cs) = (take (length k) (c # cs) = k \<or> substring k cs)"

text \<open>\<open>key in v\<close> for a string key.\<close>

fun py_in :: "string \<Rightarrow> json \<Rightarrow> exn + bool" where
  "py_in k (JObj kvs) = Inr (k \<in> fst ` set kvs)"
| "py_in k (JArr xs) = Inr (JStr k \<in> set xs)"
| "py_in k (JStr s) = Inr (substring k s)"
| "py_in k v = Inl TypeError"

text \<open>\<open>len(v)\<close> and the sequence \<open>for x in v\<close> runs over.\<close>

fun py_iter :: "json \<Rightarrow> exn + json list" where
  "py_iter (JArr xs) = Inr xs"
| "py_iter (JObj kvs) = Inr (map (\<lambda>kv. JStr (fst kv)) kvs)"
| "py_iter (JStr s) = Inr (map (\<lambda>c. JStr [c]) s)"
| "py_iter v = Inl TypeError"

definition py_len :: "json \<Rightarrow> exn + nat" where
  "py_len v = (case py_iter v of Inl e \<Rightarrow> Inl e | Inr xs \<Rightarrow> Inr (length xs))"

definition as_str :: "json \<Rightarrow> exn + string" where
  "as_str v = (case v of JStr s \<Rightarrow> Inr s | _ \<Rightarrow> Inl TypeError)"

section \<open>Strings\<close>

text \<open>\<open>s.split(c)\<close>, \<open>sep.join(ws)\<close>, \<open>s.startswith(p)\<close>, \<open>s.endswith(p)\<close>, \<open>s[:-n]\<close>.\<close>

fun split_on :: "char \<Rightarrow> string \<Rightarrow> string list" where
  "split_on c [] = [[]]"
| "split_on c (x # xs) =
     (if x = c then [] # split_on c xs
      else (let r = split_on c xs in (x # hd r) # tl r))"

fun join_on :: "string \<Rightarrow> string list \<Rightarrow> string" where
  "join_on s [] = []"
| "join_on s [w] = w"
| "join_on s (w # ws) = w @ s @ join_on s ws"

definition startswith :: "string \<Rightarrow> string \<Rightarrow> bool" where
  "startswith s p = (take (length p) s = p)"

definition endswith :: "string \<Rightarrow> string \<Rightarrow> bool" where
  "endswith s p = (length p \<le> length s \<and> drop (length s - length p) s = p)"

definition drop_last :: "nat \<Rightarrow> string \<Rightarrow> string" where
  "drop_last n s = take (length s - n) s"

definition rstrip :: "char \<Rightarrow> string \<Rightarrow> string" where
  "rstrip c s = rev (dropWhile (\<lambda>x. x = c) (rev s))"

text \<open>\<open>str(n)\<close> for an integer, and \<open>"{}".format(v)\<close> for the values that pass
  \<open>isinstance(v, int)\<close> (\<open>bool\<close> is a subclass of \<open>int\<close> and prints as its name).\<close>

fun digits :: "nat \<Rightarrow> string" where
  "digits n = (if n < 10 then [''0123456789'' ! n]
               else digits (n div 10) @ [''0123456789'' ! (n mod 10)])"

declare digits.simps [simp del]

definition str_int :: "int \<Rightarrow> string" where
  "str_int i = (if i < 0 then CHR ''-'' # digits (nat (- i)) else digits (nat i))"

fun format_int :: "json \<Rightarrow> exn + string" where
  "format_int (JInt i) = Inr (str_int i)"
| "format_int (JBool b) = Inr (if b then ''True'' else ''False'')"
| "format_int v = Inl AssertionError"

text \<open>\<open>urllib.parse.quote(s)\<close> with its default \<open>safe='/'\<close>: unreserved characters
  and the slash are kept, every other byte becomes \<open>%XX\<close>. A value that is not a \<open>str\<close>
  is a \<open>TypeError\<close>.\<close>

definition hex_digit :: "nat \<Rightarrow> char" where
  "hex_digit n = ''0123456789ABCDEF'' ! n"

definition quote_char :: "char \<Rightarrow> string" where
  "quote_char c =
     (if c \<in> set ''ABCDEFGHIJKLMNOPQRSTUVWXYZabcdefghijklmnopqrstuvwxyz0123456789_.-~/''
      then [c]
      else [CHR ''%'', hex_digit (of_char c div 16), hex_digit (of_char c mod 16)])"

definition quote :: "json \<Rightarrow> exn + string" where
  "quote v = (case v of JStr s \<Rightarrow> Inr (concat (map quote_char s)) | _ \<Rightarrow> Inl TypeError)"

section \<open>Paths (\<open>posixpath\<close>)\<close>

definition sep :: string where
  "sep = ''/''"

text \<open>\<open>os.path.join(a, b)\<close>.\<close>

definition path_join :: "string \<Rightarrow> string \<Rightarrow> string" where
  "path_join a b =
     (if startswith b sep then b
      else if a = [] \<or> endswith a sep then a @ b
      else a @ sep @ b)"

text \<open>\<open>os.path.basename(p)\<close>: what follows the last slash.\<close>

definition basename :: "string \<Rightarrow> string" where
  "basename p = last (split_on CHR ''/'' p)"

text \<open>The loop of \<open>os.path.normpath\<close> over the components, and the function itself.\<close>

definition norm_step :: "bool \<Rightarrow> string list \<Rightarrow> string \<Rightarrow> string list" where
  "norm_step rooted new_comps cmp =
     (if cmp = [] \<or> cmp = ''.'' then new_comps
      else if cmp \<noteq> ''..'' \<or> (\<not> rooted \<and> new_comps = [])
              \<or> (new_comps \<noteq> [] \<and> last new_comps = ''..'')
           then new_comps @ [cmp]
      else if new_comps \<noteq> [] then butlast new_comps
      else new_comps)"

definition norm_comps :: "string \<Rightarrow> string list" where
  "norm_comps path = foldl (norm_step (startswith path sep)) [] (split_on CHR ''/'' path)"

definition normpath :: "string \<Rightarrow> string" where
  "normpath path =
     (if path = [] then ''.''
      else let initial_slashes =
                 (if startswith path sep then
                    (if startswith path (sep @ sep) \<and> \<not> startswith path (sep @ sep @ sep)
                     then 2 else 1)
                  else (0::nat));
               p = concat (replicate initial_slashes sep) @ join_on sep (norm_comps path)
           in if p = [] then ''.'' else p)"

text \<open>\<open>os.path.abspath(p)\<close> in the working directory \<open>cwd\<close>.\<close>

definition abspath :: "string \<Rightarrow> string \<Rightarrow> string" where
  "abspath cwd path = normpath (if startswith path sep then path else path_join cwd path)"

text \<open>The components \<open>os.path.commonpath\<close> compares: empty ones and \<open>.\<close> are dropped.\<close>

definition parts :: "string \<Rightarrow> string list" where
  "parts p = filter (\<lambda>c. c \<noteq> [] \<and> c \<noteq> ''.'') (split_on CHR ''/'' p)"

text \<open>The loop of \<open>commonpath\<close>: \<open>s2[i]\<close> raises when \<open>s2\<close> is exhausted first.\<close>

fun common_loop :: "string list \<Rightarrow> string list \<Rightarrow> exn + string list" where
  "common_loop [] s2 = Inr []"
| "common_loop (c # cs) [] = Inl IndexError"
| "common_loop (c # cs) (d # ds) =
     (if c \<noteq> d then Inr []
      else (case common_loop cs ds of Inl e \<Rightarrow> Inl e | Inr r \<Rightarrow> Inr (c # r)))"

text \<open>\<open>os.path.commonpath([a, b])\<close>.\<close>

definition commonpath :: "string \<Rightarrow> string \<Rightarrow> exn + string" where
  "commonpath a b =
     (if startswith a sep \<noteq> startswith b sep then Inl ValueError
      else let s1 = min (parts a) (parts b); s2 = max (parts a) (parts b)
           in (case common_loop s1 s2 of
                 Inl e \<Rightarrow> Inl e
               | Inr common \<Rightarrow>
                   Inr ((if startswith a sep then sep else []) @ join_on sep common)))"

text \<open>\<open>is_subdir(a, b)\<close> of the source: is \<open>a\<close> a subdirectory of \<open>b\<close>?\<close>

definition is_subdir :: "string \<Rightarrow> string \<Rightarrow> string \<Rightarrow> exn + bool" where
  "is_subdir cwd a b =
     (let abs_a = abspath cwd a; abs_b = abspath cwd b
      in (case commonpath abs_a abs_b of Inl e \<Rightarrow> Inl e | Inr c \<Rightarrow> Inr (c = abs_b)))"

text \<open>\<open>output_dir_for_zip(fname)\<close> of the source.\<close>

definition output_dir_for_zip :: "string \<Rightarrow> string" where
  "output_dir_for_zip fname =
     (let filename = basename fname
      in if endswith filename ''.zip'' then drop_last 4 filename else filename)"

section \<open>The world: file system, network, console\<close>

text \<open>
  A path is resolved to the list of components of its absolute, normalised form; the file
  system maps such a list to what is there. A regular file holds bytes, or is a zip
  archive (its members in archive order, name and bytes), or is a file that passes
  \<open>zipfile.is_zipfile\<close> but whose central directory cannot be read.
\<close>

type_synonym archive = "(string \<times> string) list"

datatype content = Bytes string | Zip archive | BrokenZip

datatype node = Dir | File content

type_synonym filesystem = "string list \<Rightarrow> node option"

text \<open>
  An HTTP response: the status code, the body as the chunks \<open>iter_content\<close> delivers
  them, and whether the connection breaks after these chunks. \<open>NoReply\<close> is a request
  that fails before any response arrives.
\<close>

record response =
  status :: nat
  chunks :: "string list"
  truncated :: bool

datatype reply = NoReply | Reply response

text \<open>The lines the program prints, one constructor per \<open>print\<close> of the source.\<close>

datatype msg =
    Usage | NotValid string | DirExists string | ModpackLine json json json
  | ExtractingOverrides | CreatingModFolder | DownloadingMods nat
  | Reused json | Downloading json | RetrievingForge | DownloadingLoader json
  | RunningInstaller | Done | NoDownloadLink json

text \<open>
  The state of a run and its environment. \<open>hist\<close> records the file system after every
  library call that changes it; \<open>reqs\<close> the URLs requested, in order; \<open>out\<close> the printed
  lines; \<open>procs\<close> the external commands run; \<open>index\<close> the paths a directory listing goes
  through: every call that creates a path adds it, and a listed path that holds nothing
  is passed over. The environment answers the \<open>n\<close>-th request
  with \<open>net n url\<close>, decodes JSON text with \<open>json_loads\<close> (\<open>None\<close> when the decoder
  rejects it), runs in the directory \<open>/cwd_tail\<close>, hands out \<open>/tmp_tail\<close> as the
  temporary directory and allows \<open>rec_limit\<close> nested calls of a recursive library
  function.
\<close>

text \<open>
  What the model leaves out: symbolic links (a path is its normalised spelling), other
  processes (nothing but the program changes the file system, and a rename within one
  directory is one step), failures of \<open>fd.write\<close>, and the effect of the installer
  process, which is only recorded in \<open>procs\<close>. Strings are byte strings.
\<close>

record world =
  fs :: filesystem
  hist :: "filesystem list"
  index :: "string list list"
  reqs :: "string list"
  out :: "msg list"
  procs :: "string list list"
  net :: "nat \<Rightarrow> string \<Rightarrow> reply"
  json_loads :: "string \<Rightarrow> json option"
  cwd_tail :: string
  tmp_tail :: string
  rec_limit :: nat

type_synonym 'a prog = "world \<Rightarrow> (exn + 'a) \<times> world"

definition ret :: "'a \<Rightarrow> 'a prog" where
  "ret x w = (Inr x, w)"

definition raise :: "exn \<Rightarrow> 'a prog" where
  "raise e w = (Inl e, w)"

definition lift :: "exn + 'a \<Rightarrow> 'a prog" where
  "lift r w = (r, w)"

definition andthen :: "'a prog \<Rightarrow> ('a \<Rightarrow> 'b prog) \<Rightarrow> 'b prog" where
  "andthen m f w = (case m w of (Inl e, w') \<Rightarrow> (Inl e, w') | (Inr x, w') \<Rightarrow> f x w')"

text \<open>\<open>try: m except e: h\<close> and \<open>try: m finally: c\<close>.\<close>

definition try_except :: "'a prog \<Rightarrow> exn \<Rightarrow> 'a prog \<Rightarrow> 'a prog" where
  "try_except m e h w =
     (case m w of (Inl e', w') \<Rightarrow> if e' = e then h w' else (Inl e', w')
                | (Inr x, w') \<Rightarrow> (Inr x, w'))"

definition try_finally :: "'a prog \<Rightarrow> (world \<Rightarrow> world) \<Rightarrow> 'a prog" where
  "try_finally m c w = (case m w of (r, w') \<Rightarrow> (r, c w'))"

fun for_each :: "('a \<Rightarrow> unit prog) \<Rightarrow> 'a list \<Rightarrow> unit prog" where
  "for_each f [] w = (Inr (), w)"
| "for_each f (x # xs) w =
     (case f x w of (Inl e, w') \<Rightarrow> (Inl e, w') | (Inr u, w') \<Rightarrow> for_each f xs w')"

definition print :: "msg \<Rightarrow> unit prog" where
  "print m w = (Inr (), w\<lparr>out := out w @ [m]\<rparr>)"

definition set_fs :: "filesystem \<Rightarrow> world \<Rightarrow> world" where
  "set_fs f w = w\<lparr>fs := f, hist := hist w @ [f]\<rparr>"

text \<open>The same, for a call that may create the paths \<open>ks\<close>.\<close>

definition put_fs :: "string list list \<Rightarrow> filesystem \<Rightarrow> world \<Rightarrow> world" where
  "put_fs ks f w = w\<lparr>fs := f, hist := hist w @ [f], index := ks @ index w\<rparr>"

definition getcwd :: "world \<Rightarrow> string" where
  "getcwd w = CHR ''/'' # cwd_tail w"

text \<open>The components of \<open>os.path.abspath(p)\<close>: what the loop of \<open>normpath\<close> leaves of
  the path, made absolute in the working directory.\<close>

definition abs_comps :: "string \<Rightarrow> string \<Rightarrow> string list" where
  "abs_comps cwd p = norm_comps (if startswith p sep then p else path_join cwd p)"

definition resolve :: "world \<Rightarrow> string \<Rightarrow> string list" where
  "resolve w p = abs_comps (getcwd w) p"

subsection \<open>Operating-system calls\<close>

definition os_path_exists :: "world \<Rightarrow> string \<Rightarrow> bool" where
  "os_path_exists w p = (p \<noteq> [] \<and> fs w (resolve w p) \<noteq> None)"

definition os_path_isdir :: "world \<Rightarrow> string \<Rightarrow> bool" where
  "os_path_isdir w p = (p \<noteq> [] \<and> fs w (resolve w p) = Some Dir)"

definition os_mkdir :: "string \<Rightarrow> unit prog" where
  "os_mkdir p w =
     (if p = [] then (Inl FileNotFoundError, w)
      else let k = resolve w p
           in if k = [] \<or> fs w k \<noteq> None then (Inl FileExistsError, w)
              else if fs w (butlast k) \<noteq> Some Dir then (Inl FileNotFoundError, w)
              else (Inr (), put_fs [k] ((fs w)(k \<mapsto> Dir)) w))"

text \<open>\<open>os.makedirs(p, exist_ok=True)\<close>: the missing directories between the nearest
  existing ancestor and \<open>p\<close> are created, from the top down; a regular file in the way is
  an error.\<close>

definition is_file :: "node option \<Rightarrow> bool" where
  "is_file n = (case n of Some (File c) \<Rightarrow> True | _ \<Rightarrow> False)"

function ensure_dir :: "filesystem \<Rightarrow> string list \<Rightarrow> exn + filesystem" where
  "ensure_dir f k =
     (case f k of
        Some Dir \<Rightarrow> Inr f
      | Some (File c) \<Rightarrow> Inl NotADirectoryError
      | None \<Rightarrow>
          if k = [] then Inl FileNotFoundError
          else (case ensure_dir f (butlast k) of
                  Inl e \<Rightarrow> Inl e
                | Inr f' \<Rightarrow> Inr (f'(k \<mapsto> Dir))))"
  by pat_completeness auto
termination
  by (relation "measure (\<lambda>(f, k). length k)") auto

declare ensure_dir.simps [simp del]

definition makedirs_at :: "filesystem \<Rightarrow> string list \<Rightarrow> exn + filesystem" where
  "makedirs_at f k = (if is_file (f k) then Inl FileExistsError else ensure_dir f k)"

definition os_makedirs :: "string \<Rightarrow> unit prog" where
  "os_makedirs p w =
     (if p = [] then (Inl FileNotFoundError, w)
      else let k = resolve w p
           in (case makedirs_at (fs w) k of
                 Inl e \<Rightarrow> (Inl e, w)
               | Inr f \<Rightarrow> (Inr (), put_fs (prefixes k) f w)))"

text \<open>\<open>open(p, 'wb')\<close> creates or truncates the file and returns the handle, here the
  resolved path; \<open>fd.write(chunk)\<close> appends to it.\<close>

definition open_wb :: "string \<Rightarrow> (string list) prog" where
  "open_wb p w =
     (if p = [] then (Inl FileNotFoundError, w)
      else let k = resolve w p
           in if k = [] \<or> fs w k = Some Dir then (Inl IsADirectoryError, w)
              else if fs w (butlast k) \<noteq> Some Dir then (Inl FileNotFoundError, w)
              else (Inr k, put_fs [k] ((fs w)(k \<mapsto> File (Bytes []))) w))"

definition bytes_at :: "filesystem \<Rightarrow> string list \<Rightarrow> string" where
  "bytes_at f k = (case f k of Some (File (Bytes d)) \<Rightarrow> d | _ \<Rightarrow> [])"

definition fd_write :: "string list \<Rightarrow> string \<Rightarrow> unit prog" where
  "fd_write k c w = (Inr (), set_fs ((fs w)(k \<mapsto> File (Bytes (bytes_at (fs w) k @ c)))) w)"

text \<open>\<open>os.rename(src, dst)\<close> of a regular file: atomic, replacing a regular file at
  \<open>dst\<close>. The program only ever renames the file it has just written, so renaming a
  directory is not modelled beyond its failure.\<close>

definition os_rename :: "string \<Rightarrow> string \<Rightarrow> unit prog" where
  "os_rename src dst w =
     (if src = [] \<or> dst = [] then (Inl FileNotFoundError, w)
      else let ks = resolve w src; kd = resolve w dst
           in (case fs w ks of
                 None \<Rightarrow> (Inl FileNotFoundError, w)
               | Some Dir \<Rightarrow> (Inl OSError, w)
               | Some (File c) \<Rightarrow>
                   if kd = [] \<or> fs w kd = Some Dir then (Inl IsADirectoryError, w)
                   else if fs w (butlast kd) \<noteq> Some Dir then (Inl FileNotFoundError, w)
                   else if ks = kd then (Inr (), w)
                   else (Inr (), put_fs [kd] ((fs w)(kd \<mapsto> File c, ks := None)) w)))"

text \<open>\<open>shutil.move(src, dst)\<close>: into \<open>dst\<close> when it is a directory, onto it otherwise.\<close>

definition shutil_move :: "string \<Rightarrow> string \<Rightarrow> unit prog" where
  "shutil_move src dst w =
     (if os_path_isdir w dst then
        (if os_path_exists w src \<and> resolve w src = resolve w dst then os_rename src dst w
         else let real_dst = path_join dst (basename (rstrip CHR ''/'' src))
              in if os_path_exists w real_dst then (Inl ShutilError, w)
                 else os_rename src real_dst w)
      else os_rename src dst w)"

text \<open>\<open>tempfile.TemporaryDirectory()\<close>: a directory of a fresh name is created in an
  existing directory on entry and removed, with everything below it, on exit.\<close>

definition tempd_of :: "world \<Rightarrow> string" where
  "tempd_of w = CHR ''/'' # tmp_tail w"

definition mkdtemp :: "string prog" where
  "mkdtemp w =
     (let k = resolve w (tempd_of w)
      in if fs w k \<noteq> None then (Inl FileExistsError, w)
         else if k = [] \<or> fs w (butlast k) \<noteq> Some Dir then (Inl FileNotFoundError, w)
         else (Inr (tempd_of w), put_fs [k] ((fs w)(k \<mapsto> Dir)) w))"

definition rmtree :: "string \<Rightarrow> world \<Rightarrow> world" where
  "rmtree p w = set_fs (\<lambda>x. if prefix (resolve w p) x then None else fs w x) w"

text \<open>
  \<open>shutil.copytree(src, dst, dirs_exist_ok=True)\<close>, after the library's code.

  \<open>scandir w k\<close> is the listing of the directory \<open>k\<close>: the names of the listed paths
  directly below \<open>k\<close> that hold something, each with what \<open>DirEntry.is_dir()\<close> answers.

  \<open>copy2\<close> copies a regular file onto the destination, or into it under the name of the
  source when the destination is a directory; \<open>copyfile\<close> refuses to copy a file onto
  itself and to write onto a directory. Metadata is not modelled, so \<open>copystat\<close> does
  nothing.

  \<open>copytree\<close> reads the listing of the source, creates the destination as \<open>makedirs\<close>
  does, and goes through the listing: a directory is copied by a nested call, a file by
  \<open>copy2\<close>. An \<open>OSError\<close> or \<open>shutil.Error\<close> of an entry is noted and the loop goes on
  with the next entry; when the loop is over and an error was noted, \<open>shutil.Error\<close> is
  raised, with the other entries already copied. \<open>rec_limit w\<close> is the number of nested
  calls the interpreter's recursion limit allows: one call more raises
  \<open>RecursionError\<close>, which ends the copy at once.
\<close>

definition scandir :: "world \<Rightarrow> string list \<Rightarrow> (string \<times> bool) list" where
  "scandir w k =
     map (\<lambda>x. (last x, fs w x = Some Dir))
       (remdups (filter (\<lambda>x. x \<noteq> [] \<and> butlast x = k \<and> fs w x \<noteq> None) (index w)))"

definition copyfile :: "string list \<Rightarrow> string list \<Rightarrow> unit prog" where
  "copyfile ks kd w =
     (if ks = kd \<and> fs w ks \<noteq> None then (Inl SameFileError, w)
      else (case fs w ks of
              None \<Rightarrow> (Inl FileNotFoundError, w)
            | Some Dir \<Rightarrow> (Inl IsADirectoryError, w)
            | Some (File c) \<Rightarrow>
                if kd = [] \<or> fs w kd = Some Dir then (Inl IsADirectoryError, w)
                else if is_file (fs w (butlast kd)) then (Inl NotADirectoryError, w)
                else if fs w (butlast kd) \<noteq> Some Dir then (Inl FileNotFoundError, w)
                else (Inr (), put_fs [kd] ((fs w)(kd \<mapsto> File c)) w)))"

definition copy2 :: "string list \<Rightarrow> string list \<Rightarrow> unit prog" where
  "copy2 ks kd w = copyfile ks (if fs w kd = Some Dir then kd @ [last ks] else kd) w"

text \<open>The exceptions that \<open>except OSError\<close> and \<open>except Error\<close> catch.\<close>

definition os_error :: "exn \<Rightarrow> bool" where
  "os_error e =
     (e = FileExistsError \<or> e = FileNotFoundError \<or> e = IsADirectoryError \<or>
      e = NotADirectoryError \<or> e = OSError \<or> e = HTTPError \<or> e = RequestException)"

definition shutil_error :: "exn \<Rightarrow> bool" where
  "shutil_error e = (e = ShutilError \<or> e = SameFileError)"

text \<open>The loop of \<open>_copytree\<close> over the listing; \<open>errors\<close> tells whether the list of
  errors is non-empty, \<open>nested\<close> is the nested call of \<open>copytree\<close>.\<close>

fun copy_entries ::
  "(string list \<Rightarrow> string list \<Rightarrow> unit prog) \<Rightarrow> string list \<Rightarrow> string list \<Rightarrow>
   (string \<times> bool) list \<Rightarrow> bool \<Rightarrow> unit prog" where
  "copy_entries nested ks kd [] errors w =
     (if errors then (Inl ShutilError, w) else (Inr (), w))"
| "copy_entries nested ks kd ((name, is_dir) # entries) errors w =
     (case (if is_dir then nested (ks @ [name]) (kd @ [name]) w
            else copy2 (ks @ [name]) (kd @ [name]) w) of
        (Inl e, w') \<Rightarrow>
          if shutil_error e \<or> os_error e then copy_entries nested ks kd entries True w'
          else (Inl e, w')
      | (Inr u, w') \<Rightarrow> copy_entries nested ks kd entries errors w')"

primrec copytree_at :: "nat \<Rightarrow> string list \<Rightarrow> string list \<Rightarrow> unit prog" where
  "copytree_at 0 = (\<lambda>ks kd w. (Inl RecursionError, w))"
| "copytree_at (Suc depth) = (\<lambda>ks kd w.
     (case fs w ks of
        None \<Rightarrow> (Inl FileNotFoundError, w)
      | Some (File c) \<Rightarrow> (Inl NotADirectoryError, w)
      | Some Dir \<Rightarrow>
          let entries = scandir w ks
          in (case makedirs_at (fs w) kd of
                Inl e \<Rightarrow> (Inl e, w)
              | Inr f \<Rightarrow>
                  copy_entries (copytree_at depth) ks kd entries False
                    (put_fs (prefixes kd) f w))))"

definition copytree :: "string \<Rightarrow> string \<Rightarrow> unit prog" where
  "copytree src dst w =
     (if src = [] then (Inl FileNotFoundError, w)
      else if dst = [] \<and> fs w (resolve w src) = Some Dir then (Inl FileNotFoundError, w)
      else copytree_at (rec_limit w) (resolve w src) (resolve w dst) w)"

definition subprocess_run :: "string list \<Rightarrow> unit prog" where
  "subprocess_run args w = (Inr (), w\<lparr>procs := procs w @ [args]\<rparr>)"

subsection \<open>Zip archives\<close>

text \<open>A member is found by name, the last one of that name winning; a name ending in
  a slash is a directory. \<open>ZipFile.extract\<close> drops empty, \<open>.\<close> and \<open>..\<close> components
  from the name before it joins it to the target directory.\<close>

definition zip_lookup :: "archive \<Rightarrow> string \<Rightarrow> string option" where
  "zip_lookup zf n = map_of (rev zf) n"

definition namelist :: "archive \<Rightarrow> string list" where
  "namelist zf = map fst zf"

definition sanitize :: "string \<Rightarrow> string" where
  "sanitize n =
     join_on sep (filter (\<lambda>x. x \<noteq> [] \<and> x \<noteq> ''.'' \<and> x \<noteq> ''..'') (split_on CHR ''/'' n))"

definition zip_extract :: "archive \<Rightarrow> string \<Rightarrow> string \<Rightarrow> unit prog" where
  "zip_extract zf n path w =
     (case zip_lookup zf n of
        None \<Rightarrow> (Inl KeyError, w)
      | Some d \<Rightarrow>
          let targetpath = normpath (path_join path (sanitize n));
              k = resolve w targetpath
          in (case ensure_dir (fs w) (butlast k) of
                Inl e \<Rightarrow> (Inl e, w)
              | Inr f \<Rightarrow>
                  if endswith n sep then
                    (if is_file (f k) then (Inl FileExistsError, put_fs (prefixes k) f w)
                     else (Inr (), put_fs (prefixes k) (f(k \<mapsto> Dir)) w))
                  else
                    (if k = [] \<or> f k = Some Dir
                     then (Inl IsADirectoryError, put_fs (prefixes k) f w)
                     else (Inr (), put_fs (prefixes k) (f(k \<mapsto> File (Bytes d))) w))))"

definition zipfile_is_zipfile :: "world \<Rightarrow> string \<Rightarrow> bool" where
  "zipfile_is_zipfile w fpath =
     (fpath \<noteq> [] \<and>
      (case fs w (resolve w fpath) of
         Some (File (Zip zf)) \<Rightarrow> True
       | Some (File BrokenZip) \<Rightarrow> True
       | _ \<Rightarrow> False))"

definition zipfile_open :: "string \<Rightarrow> archive prog" where
  "zipfile_open fpath w =
     (if fpath = [] then (Inl FileNotFoundError, w)
      else (case fs w (resolve w fpath) of
              None \<Rightarrow> (Inl FileNotFoundError, w)
            | Some Dir \<Rightarrow> (Inl IsADirectoryError, w)
            | Some (File (Zip zf)) \<Rightarrow> (Inr zf, w)
            | Some (File c) \<Rightarrow> (Inl BadZipFile, w)))"

subsection \<open>HTTP session\<close>

text \<open>\<open>s.get(url, stream=...)\<close>. A URL that is not a string is rejected before anything
  is sent. Without \<open>stream\<close> the body is read at once, so a connection that breaks fails
  the call itself.\<close>

definition session_get :: "json \<Rightarrow> bool \<Rightarrow> response prog" where
  "session_get url stream w =
     (case url of
        JStr u \<Rightarrow>
          (let w' = w\<lparr>reqs := reqs w @ [u]\<rparr>
           in (case net w (length (reqs w)) u of
                 NoReply \<Rightarrow> (Inl RequestException, w')
               | Reply r \<Rightarrow>
                   if \<not> stream \<and> truncated r then (Inl RequestException, w')
                   else (Inr r, w')))
      | _ \<Rightarrow> (Inl RequestException, w))"

definition raise_for_status :: "response \<Rightarrow> unit prog" where
  "raise_for_status r w =
     (if 400 \<le> status r \<and> status r < 600 then (Inl HTTPError, w) else (Inr (), w))"

definition response_text :: "response \<Rightarrow> string" where
  "response_text r = concat (chunks r)"

definition response_json :: "response \<Rightarrow> json prog" where
  "response_json r w =
     (case json_loads w (response_text r) of
        None \<Rightarrow> (Inl JSONDecodeError, w)
      | Some j \<Rightarrow> (Inr j, w))"

section \<open>The program\<close>

definition api_url :: string where
  "api_url = ''https://addons-ecs.forgesvc.net/api/v2/''"

text \<open>\<open>get_manifest(mod_zip)\<close>: the member \<open>manifest.json\<close>, decoded.\<close>

definition get_manifest :: "archive \<Rightarrow> json prog" where
  "get_manifest mod_zip w =
     (case zip_lookup mod_zip ''manifest.json'' of
        None \<Rightarrow> (Inl KeyError, w)
      | Some txt \<Rightarrow>
          (case json_loads w txt of
             None \<Rightarrow> (Inl JSONDecodeError, w)
           | Some j \<Rightarrow> (Inr j, w)))"

text \<open>\<open>is_modpack_zip(fpath)\<close>: the only handler is the one for \<open>KeyError\<close>.\<close>

definition is_modpack_zip :: "string \<Rightarrow> bool prog" where
  "is_modpack_zip fpath w =
     (if \<not> zipfile_is_zipfile w fpath then (Inr False, w)
      else try_except
             (andthen (zipfile_open fpath) (\<lambda>zf.
              andthen (get_manifest zf) (\<lambda>mf.
              andthen (lift (subscr mf ''manifestType'')) (\<lambda>t.
              ret (t = JStr ''minecraftModpack'')))))
             KeyError
             (ret False) w)"

text \<open>\<open>get_download_url(proj_id, file_id)\<close> and \<open>get_info(proj_id)\<close>: the two
  \<open>isinstance\<close> assertions, the request, \<open>raise_for_status\<close>, the body.\<close>

definition download_url_request :: "string \<Rightarrow> string \<Rightarrow> string" where
  "download_url_request p f = api_url @ ''addon/'' @ p @ ''/file/'' @ f @ ''/download-url''"

definition info_request :: "string \<Rightarrow> string" where
  "info_request p = api_url @ ''addon/'' @ p"

definition get_download_url :: "json \<Rightarrow> json \<Rightarrow> string prog" where
  "get_download_url proj_id file_id =
     andthen (lift (format_int proj_id)) (\<lambda>p.
     andthen (lift (format_int file_id)) (\<lambda>f.
     andthen (session_get (JStr (download_url_request p f)) False) (\<lambda>response.
     andthen (raise_for_status response) (\<lambda>u.
     ret (response_text response)))))"

definition get_info :: "json \<Rightarrow> json prog" where
  "get_info proj_id =
     andthen (lift (format_int proj_id)) (\<lambda>p.
     andthen (session_get (JStr (info_request p)) False) (\<lambda>response.
     andthen (raise_for_status response) (\<lambda>u.
     response_json response)))"

text \<open>\<open>download_to_file(url, file, overwrite)\<close>. The loop over \<open>iter_content\<close> writes
  the chunks that arrive and raises when the connection breaks; the \<open>with\<close> block closes
  the file either way and nothing removes it.\<close>

fun write_chunks :: "string list \<Rightarrow> string list \<Rightarrow> unit prog" where
  "write_chunks fd [] w = (Inr (), w)"
| "write_chunks fd (chunk # cs) w =
     (case fd_write fd chunk w of
        (Inl e, w') \<Rightarrow> (Inl e, w')
      | (Inr u, w') \<Rightarrow> write_chunks fd cs w')"

definition download_to_file :: "json \<Rightarrow> string \<Rightarrow> bool \<Rightarrow> unit prog" where
  "download_to_file url file overwrite w =
     (if os_path_exists w file \<and> \<not> overwrite then (Inl FileExistsError, w)
      else
        let dlpath = file @ ''.part''
        in andthen (session_get url True) (\<lambda>r.
           andthen (raise_for_status r) (\<lambda>u.
           andthen (open_wb dlpath) (\<lambda>fd.
           andthen (write_chunks fd (chunks r)) (\<lambda>u.
           andthen (if truncated r then raise RequestException else ret ()) (\<lambda>u.
           shutil_move dlpath file))))) w)"

text \<open>The destination of a file record, lines 108 to 113 of the source: the last
  segment of the URL, joined to the folder, with \<open>.disabled\<close> appended when the record's
  \<open>required\<close> is false.\<close>

definition manifest_destpath :: "string \<Rightarrow> string \<Rightarrow> json \<Rightarrow> string" where
  "manifest_destpath url folder required =
     (let filename = last (split_on CHR ''/'' url);
          destpath = path_join folder filename
      in if \<not> truthy required then destpath @ ''.disabled'' else destpath)"

text \<open>\<open>download_manifest_file(f, folder, force)\<close>; \<open>catalog_lookup\<close> is its lines 103
  and 104, the two catalog requests.\<close>

definition catalog_lookup :: "json \<Rightarrow> (json \<times> string) prog" where
  "catalog_lookup f =
     andthen (lift (subscr f ''projectID'')) (\<lambda>pid.
     andthen (get_info pid) (\<lambda>mod_info.
     andthen (lift (subscr f ''projectID'')) (\<lambda>pid'.
     andthen (lift (subscr f ''fileID'')) (\<lambda>fid.
     andthen (get_download_url pid' fid) (\<lambda>url.
     ret (mod_info, url))))))"

definition download_manifest_file :: "json \<Rightarrow> string \<Rightarrow> bool \<Rightarrow> unit prog" where
  "download_manifest_file f folder force =
     andthen (catalog_lookup f) (\<lambda>(mod_info, url).
     andthen (lift (subscr f ''required'')) (\<lambda>required.
     (\<lambda>w. let destpath = manifest_destpath url folder required
          in if os_path_exists w destpath \<and> \<not> force then
               andthen (lift (subscr mod_info ''name'')) (\<lambda>nm. print (Reused nm)) w
             else
               andthen (lift (subscr mod_info ''name'')) (\<lambda>nm.
               andthen (print (Downloading nm)) (\<lambda>u.
               download_to_file (JStr url) destpath False)) w)))"

definition modloader_request :: "string \<Rightarrow> string" where
  "modloader_request q = api_url @ ''minecraft/modloader/'' @ q"

definition get_modloader_info :: "json \<Rightarrow> json prog" where
  "get_modloader_info modloader_id =
     andthen (lift (quote modloader_id)) (\<lambda>q.
     andthen (session_get (JStr (modloader_request q)) False) (\<lambda>response.
     andthen (raise_for_status response) (\<lambda>u.
     response_json response)))"

text \<open>\<open>extract_overrides(mpack_zip, output_dir)\<close>. \<open>n.startswith(or_folder)\<close> and
  \<open>os.path.join(tempd, or_folder)\<close> both need a string, so a value of another type is a
  \<open>TypeError\<close> before anything is extracted.\<close>

definition extract_overrides :: "archive \<Rightarrow> string \<Rightarrow> unit prog" where
  "extract_overrides mpack_zip output_dir =
     andthen mkdtemp (\<lambda>tempd.
     try_finally
       (andthen (get_manifest mpack_zip) (\<lambda>mf.
        andthen (lift (subscr mf ''overrides'')) (\<lambda>ov.
        andthen (lift (as_str ov)) (\<lambda>or_folder.
        andthen (for_each (\<lambda>n. if startswith n or_folder
                                then zip_extract mpack_zip n tempd else ret ())
                   (namelist mpack_zip)) (\<lambda>u.
        (\<lambda>w. let output_override_dir = path_join tempd or_folder
             in andthen (lift (is_subdir (getcwd w) output_override_dir tempd)) (\<lambda>ok.
                if \<not> ok then raise AssertionError
                else copytree output_override_dir output_dir) w))))))
       (rmtree tempd))"

text \<open>The loop of \<open>main\<close> over \<open>modLoaders\<close>: \<open>modloader_id\<close> is assigned at every entry
  whose \<open>primary\<close> is true, and is unbound (\<open>None\<close>) until then.\<close>

fun select_loader :: "json option \<Rightarrow> json list \<Rightarrow> exn + json option" where
  "select_loader modloader_id [] = Inr modloader_id"
| "select_loader modloader_id (l # ls) =
     (case subscr l ''primary'' of
        Inl e \<Rightarrow> Inl e
      | Inr p \<Rightarrow>
          if truthy p then
            (case subscr l ''id'' of
               Inl e \<Rightarrow> Inl e
             | Inr i \<Rightarrow> select_loader (Some i) ls)
          else select_loader modloader_id ls)"

text \<open>Lines 188 to 196 of \<open>main\<close>: the destination and URL of the loader download,
  rewritten to the installer's when the destination does not end in
  \<open>-installer.jar\<close>.\<close>

definition installer_target :: "string \<Rightarrow> json \<Rightarrow> json \<Rightarrow> exn + string \<times> json" where
  "installer_target out_dname dest_fname url =
     (case as_str dest_fname of
        Inl e \<Rightarrow> Inl e
      | Inr fname \<Rightarrow>
          let dest_path = path_join out_dname fname
          in if \<not> endswith dest_path ''-installer.jar'' then
               (case as_str url of
                  Inl e \<Rightarrow> Inl e
                | Inr u \<Rightarrow> Inr (drop_last 4 dest_path @ ''-installer.jar'',
                               JStr (drop_last 4 u @ ''-installer.jar'')))
             else Inr (dest_path, url))"

text \<open>Lines 187 to 209 of \<open>main\<close>: what is done with the loader's metadata.\<close>

definition install_loader :: "json \<Rightarrow> string \<Rightarrow> json \<Rightarrow> unit prog" where
  "install_loader modloader_id out_dname loader_info =
     andthen (lift (py_in ''downloadUrl'' loader_info)) (\<lambda>has_url.
     if has_url then
       andthen (lift (subscr loader_info ''filename'')) (\<lambda>dest_fname.
       andthen (lift (subscr loader_info ''downloadUrl'')) (\<lambda>url0.
       andthen (lift (installer_target out_dname dest_fname url0)) (\<lambda>(dest_path, url).
       andthen (try_except
                  (andthen (lift (subscr loader_info ''name'')) (\<lambda>nm.
                   andthen (print (DownloadingLoader nm)) (\<lambda>u.
                   download_to_file url dest_path False)))
                  FileExistsError
                  (ret ())) (\<lambda>u.
       andthen (print RunningInstaller) (\<lambda>u.
       andthen (subprocess_run [''java'', ''-jar'', dest_path]) (\<lambda>u.
       print Done))))))
     else print (NoDownloadLink modloader_id))"

text \<open>Lines 180 to 186 of \<open>main\<close>, and then the above: the loader phase. Reading
  \<open>modloader_id\<close> while it is unbound raises \<open>UnboundLocalError\<close>.\<close>

definition loader_phase :: "json \<Rightarrow> string \<Rightarrow> unit prog" where
  "loader_phase mf out_dname =
     andthen (print RetrievingForge) (\<lambda>u.
     andthen (lift (subscr mf ''minecraft'')) (\<lambda>mc.
     andthen (lift (subscr mc ''modLoaders'')) (\<lambda>loaders.
     andthen (lift (py_iter loaders)) (\<lambda>ls.
     andthen (lift (select_loader None ls)) (\<lambda>sel.
     (case sel of
        None \<Rightarrow> raise UnboundLocalError
      | Some modloader_id \<Rightarrow>
          andthen (get_modloader_info modloader_id)
            (install_loader modloader_id out_dname)))))))"

text \<open>Lines 156 to 178 of \<open>main\<close>: the output directory, the overrides and the mods.\<close>

definition install_phase :: "string \<Rightarrow> json prog" where
  "install_phase tgt_zip =
     (let out_dname = output_dir_for_zip tgt_zip
      in andthen (\<lambda>w. if os_path_isdir w out_dname then print (DirExists out_dname) w
                      else os_mkdir out_dname w) (\<lambda>u.
         andthen (zipfile_open tgt_zip) (\<lambda>zf.
         andthen (get_manifest zf) (\<lambda>mf.
         andthen (lift (subscr mf ''name'')) (\<lambda>nm.
         andthen (lift (subscr mf ''version'')) (\<lambda>ver.
         andthen (lift (subscr mf ''author'')) (\<lambda>au.
         andthen (print (ModpackLine nm ver au)) (\<lambda>u.
         andthen (lift (py_in ''overrides'' mf)) (\<lambda>has_overrides.
         andthen (if has_overrides then
                    andthen (print ExtractingOverrides) (\<lambda>u.
                    extract_overrides zf (path_join out_dname ''minecraft''))
                  else ret ()) (\<lambda>u.
         andthen (print CreatingModFolder) (\<lambda>u.
         let mod_output_dir = path_join (path_join out_dname ''minecraft'') ''mods''
         in andthen (os_makedirs mod_output_dir) (\<lambda>u.
            andthen (lift (subscr mf ''files'')) (\<lambda>files.
            andthen (lift (py_len files)) (\<lambda>n.
            andthen (print (DownloadingMods n)) (\<lambda>u.
            andthen (lift (subscr mf ''files'')) (\<lambda>files'.
            andthen (lift (py_iter files')) (\<lambda>fl.
            andthen (for_each (\<lambda>f. download_manifest_file f mod_output_dir False) fl) (\<lambda>u.
            ret mf))))))))))))))))))"

text \<open>\<open>main(argv)\<close>.\<close>

definition main :: "string list \<Rightarrow> unit prog" where
  "main argv =
     (if length argv < 2 then raise IndexError
      else
        let tgt_zip = argv ! 1
        in andthen (if ''-h'' \<in> set argv \<or> ''--help'' \<in> set argv then print Usage
                    else ret ()) (\<lambda>u.
           andthen (is_modpack_zip tgt_zip) (\<lambda>ok.
           if \<not> ok then print (NotValid tgt_zip)
           else andthen (install_phase tgt_zip) (\<lambda>mf.
                loader_phase mf (output_dir_for_zip tgt_zip)))))"

text \<open>The path that \<open>abspath\<close> normalises: \<open>p\<close> itself when absolute, else joined to
  the working directory.\<close>

definition absolute :: "string \<Rightarrow> string \<Rightarrow> string" where
  "absolute cwd p = (if startswith p sep then p else path_join cwd p)"

text \<open>A path component that \<open>normpath\<close> keeps as it is.\<close>

definition plain :: "string \<Rightarrow> bool" where
  "plain c = (c \<noteq> [] \<and> c \<noteq> ''.'' \<and> c \<noteq> ''..'' \<and> CHR ''/'' \<notin> set c)"

text \<open>\<open>below kt f0 f\<close>: the file system \<open>f\<close> differs from \<open>f0\<close> at most at \<open>kt\<close> and below
  it. \<open>staged w0 w1\<close>: the state \<open>w1\<close> of a run of \<open>extract_overrides\<close> started in \<open>w0\<close>,
  while the staging directory exists: so far the file system has changed below the
  staging directory only.\<close>

definition below :: "string list \<Rightarrow> filesystem \<Rightarrow> filesystem \<Rightarrow> bool" where
  "below kt f0 f = (\<forall>x. \<not> prefix kt x \<longrightarrow> f x = f0 x)"

definition staged :: "world \<Rightarrow> world \<Rightarrow> bool" where
  "staged w0 w1 =
     (fs w1 (resolve w0 (tempd_of w0)) = Some Dir \<and>
      fs w1 (butlast (resolve w0 (tempd_of w0))) = Some Dir \<and>
      below (resolve w0 (tempd_of w0)) (fs w0) (fs w1) \<and>
      cwd_tail w1 = cwd_tail w0 \<and> tmp_tail w1 = tmp_tail w0 \<and>
      json_loads w1 = json_loads w0 \<and>
      (\<exists>hs. hist w1 = hist w0 @ hs \<and> (\<forall>s\<in>set hs. below (resolve w0 (tempd_of w0)) (fs w0) s)))"

text \<open>A program that only ever appends to the log of requests.\<close>

definition extends_reqs :: "'a prog \<Rightarrow> bool" where
  "extends_reqs m = (\<forall>w. prefix (reqs w) (reqs (snd (m w))))"

section \<open>An example installation\<close>

text \<open>
  A concrete world on which the program is run below. The working directory is
  \<open>/home/u\<close>. It holds four archives: \<open>pack.zip\<close>, a modpack with one optional mod, an
  overrides folder and the loader \<open>forge-1\<close>; \<open>other.zip\<close>, whose manifest has another
  \<open>manifestType\<close>; \<open>bad.zip\<close>, whose manifest is not JSON; \<open>noloader.zip\<close>, a modpack
  none of whose loaders is primary; \<open>flat.zip\<close>, whose overrides path is the empty string;
  and \<open>up.zip\<close>, whose overrides path leads out of the archive. The output directory \<open>pack\<close> of an earlier run is
  there, with the mod and the installer. The decoder of the example knows the texts
  that occur in it and rejects everything else.
\<close>

definition pack_text :: string where
  \<open>pack_text = ''{"manifestType": "minecraftModpack", "name": "P", "version": "1", "author": "me", "overrides": "overrides", "files": [{"projectID": 12, "fileID": 345, "required": false}], "minecraft": {"version": "1.12.2", "modLoaders": [{"id": "forge-1", "primary": true}]}}''\<close>

definition pack_record :: json where
  "pack_record = JObj [(''projectID'', JInt 12), (''fileID'', JInt 345), (''required'', JBool False)]"

definition pack_manifest :: json where
  "pack_manifest =
     JObj [(''manifestType'', JStr ''minecraftModpack''), (''name'', JStr ''P''),
           (''version'', JStr ''1''), (''author'', JStr ''me''),
           (''overrides'', JStr ''overrides''),
           (''files'', JArr [pack_record]),
           (''minecraft'', JObj [(''version'', JStr ''1.12.2''),
              (''modLoaders'', JArr [JObj [(''id'', JStr ''forge-1''), (''primary'', JBool True)]])])]"

definition other_text :: string where
  \<open>other_text = ''{"manifestType": "resourcePack"}''\<close>

definition other_manifest :: json where
  "other_manifest = JObj [(''manifestType'', JStr ''resourcePack'')]"

definition noloader_text :: string where
  \<open>noloader_text = ''{"manifestType": "minecraftModpack", "name": "P", "version": "1", "author": "me", "files": [], "minecraft": {"version": "1.12.2", "modLoaders": [{"id": "forge-1", "primary": false}]}}''\<close>

definition noloader_manifest :: json where
  "noloader_manifest =
     JObj [(''manifestType'', JStr ''minecraftModpack''), (''name'', JStr ''P''),
           (''version'', JStr ''1''), (''author'', JStr ''me''), (''files'', JArr []),
           (''minecraft'', JObj [(''version'', JStr ''1.12.2''),
              (''modLoaders'', JArr [JObj [(''id'', JStr ''forge-1''), (''primary'', JBool False)]])])]"

definition flat_text :: string where
  \<open>flat_text = ''{"manifestType": "minecraftModpack", "overrides": ""}''\<close>

definition flat_manifest :: json where
  "flat_manifest = JObj [(''manifestType'', JStr ''minecraftModpack''), (''overrides'', JStr [])]"

definition flat_zip :: archive where
  "flat_zip = [(''manifest.json'', flat_text), (''config/a.cfg'', ''x=1'')]"

definition up_text :: string where
  \<open>up_text = ''{"manifestType": "minecraftModpack", "overrides": "../up"}''\<close>

definition up_manifest :: json where
  "up_manifest = JObj [(''manifestType'', JStr ''minecraftModpack''), (''overrides'', JStr ''../up'')]"

definition up_zip :: archive where
  "up_zip = [(''manifest.json'', up_text), (''../up/a.cfg'', ''x=1'')]"

definition info_text :: string where
  \<open>info_text = ''{"name": "Mod"}''\<close>

definition info_json :: json where
  "info_json = JObj [(''name'', JStr ''Mod'')]"

definition loader_text :: string where
  \<open>loader_text = ''{"name": "forge", "filename": "forge-36.0.0.jar", "downloadUrl": "https://files/forge-36.0.0.jar"}''\<close>

definition loader_json :: json where
  "loader_json =
     JObj [(''name'', JStr ''forge''), (''filename'', JStr ''forge-36.0.0.jar''),
           (''downloadUrl'', JStr ''https://files/forge-36.0.0.jar'')]"

definition demo_loads :: "string \<Rightarrow> json option" where
  "demo_loads s =
     (if s = pack_text then Some pack_manifest
      else if s = other_text then Some other_manifest
      else if s = noloader_text then Some noloader_manifest
      else if s = flat_text then Some flat_manifest
      else if s = up_text then Some up_manifest
      else if s = info_text then Some info_json
      else if s = loader_text then Some loader_json
      else None)"

definition demo_fs :: filesystem where
  "demo_fs =
     [[] \<mapsto> Dir, [''tmp''] \<mapsto> Dir, [''home''] \<mapsto> Dir, [''home'', ''u''] \<mapsto> Dir,
      [''home'', ''u'', ''pack.zip''] \<mapsto>
         File (Zip [(''manifest.json'', pack_text), (''overrides/'', []),
                    (''overrides/config/a.cfg'', ''x=1'')]),
      [''home'', ''u'', ''other.zip''] \<mapsto> File (Zip [(''manifest.json'', other_text)]),
      [''home'', ''u'', ''bad.zip''] \<mapsto> File (Zip [(''manifest.json'', ''not json'')]),
      [''home'', ''u'', ''noloader.zip''] \<mapsto> File (Zip [(''manifest.json'', noloader_text)]),
      [''home'', ''u'', ''flat.zip''] \<mapsto> File (Zip flat_zip),
      [''home'', ''u'', ''up.zip''] \<mapsto> File (Zip up_zip),
      [''home'', ''u'', ''pack''] \<mapsto> Dir,
      [''home'', ''u'', ''pack'', ''minecraft''] \<mapsto> Dir,
      [''home'', ''u'', ''pack'', ''minecraft'', ''mods''] \<mapsto> Dir,
      [''home'', ''u'', ''pack'', ''minecraft'', ''mods'', ''mod.jar.disabled''] \<mapsto>
         File (Bytes ''abcd''),
      [''home'', ''u'', ''pack'', ''forge-36.0.0-installer.jar''] \<mapsto> File (Bytes ''jar'')]"

definition demo_index :: "string list list" where
  "demo_index =
     [[], [''tmp''], [''home''], [''home'', ''u''],
      [''home'', ''u'', ''pack.zip''], [''home'', ''u'', ''other.zip''],
      [''home'', ''u'', ''bad.zip''], [''home'', ''u'', ''noloader.zip''],
      [''home'', ''u'', ''flat.zip''], [''home'', ''u'', ''up.zip''],
      [''home'', ''u'', ''pack''], [''home'', ''u'', ''pack'', ''minecraft''],
      [''home'', ''u'', ''pack'', ''minecraft'', ''mods''],
      [''home'', ''u'', ''pack'', ''minecraft'', ''mods'', ''mod.jar.disabled''],
      [''home'', ''u'', ''pack'', ''forge-36.0.0-installer.jar'']]"

definition ok_response :: "string list \<Rightarrow> reply" where
  "ok_response cs = Reply \<lparr>status = 200, chunks = cs, truncated = False\<rparr>"

definition demo_net :: "nat \<Rightarrow> string \<Rightarrow> reply" where
  "demo_net n u =
     (if u = info_request ''12'' then ok_response [info_text]
      else if u = download_url_request ''12'' ''345'' then ok_response [''https://cdn/f/mod.jar'']
      else if u = ''https://cdn/f/mod.jar'' then ok_response [''ab'', ''cd'']
      else if u = ''https://cdn/f/cut.jar''
        then Reply \<lparr>status = 200, chunks = [''ab''], truncated = True\<rparr>
      else if u = modloader_request ''forge-1'' then ok_response [loader_text]
      else if u = ''https://files/forge-36.0.0-installer.jar'' then ok_response [''jar'']
      else NoReply)"

definition demo_world :: world where
  "demo_world =
     \<lparr>fs = demo_fs, hist = [], index = demo_index, reqs = [], out = [], procs = [],
      net = demo_net, json_loads = demo_loads,
      cwd_tail = ''home/u'', tmp_tail = ''tmp/tmpq1'', rec_limit = 400\<rparr>"

section \<open>Strings and paths: basic facts\<close>

lemma split_on_nonempty: "split_on c s \<noteq> []"
  by (induction s) (auto simp: Let_def)

lemma split_on_no_sep: "c \<notin> set s \<Longrightarrow> split_on c s = [s]"
  by (induction s) (auto simp: Let_def)

lemma split_on_append_sep: "split_on c (a @ c # b) = split_on c a @ split_on c b"
proof (induction a)
  case Nil
  show ?case by simp
next
  case (Cons x a)
  show ?case
  proof (cases "x = c")
    case True
    with Cons show ?thesis by simp
  next
    case False
    have "split_on c a \<noteq> []" by (rule split_on_nonempty)
    with False Cons show ?thesis by (simp add: Let_def)
  qed
qed

lemma split_on_append_tail:
  "c \<notin> set s \<Longrightarrow> split_on c (a @ s) = butlast (split_on c a) @ [last (split_on c a) @ s]"
proof (induction a)
  case Nil
  then show ?case by (simp add: split_on_no_sep)
next
  case (Cons x a)
  have ne: "split_on c a \<noteq> []" by (rule split_on_nonempty)
  have ne': "split_on c (a @ s) \<noteq> []" by (rule split_on_nonempty)
  show ?case
  proof (cases "x = c")
    case True
    with Cons ne show ?thesis by simp
  next
    case False
    with Cons ne ne' show ?thesis
      by (cases "split_on c a") (auto simp: Let_def)
  qed
qed

lemma last_split_on_append:
  "c \<notin> set s \<Longrightarrow> last (split_on c (a @ s)) = last (split_on c a) @ s"
  by (simp add: split_on_append_tail)

lemma last_split_on_sep:
  "last (split_on c (a @ c # b)) = last (split_on c b)"
  by (simp add: split_on_append_sep split_on_nonempty)

lemma split_on_elems: "x \<in> set (split_on c s) \<Longrightarrow> c \<notin> set x"
proof (induction s arbitrary: x)
  case Nil
  then show ?case by simp
next
  case (Cons y s)
  have ne: "split_on c s \<noteq> []" by (rule split_on_nonempty)
  show ?case
  proof (cases "y = c")
    case True
    with Cons show ?thesis by auto
  next
    case False
    with Cons.prems have "x = y # hd (split_on c s) \<or> x \<in> set (tl (split_on c s))"
      by (auto simp: Let_def)
    then show ?thesis
    proof
      assume "x = y # hd (split_on c s)"
      moreover have "c \<notin> set (hd (split_on c s))"
        using Cons.IH [of "hd (split_on c s)"] ne by simp
      ultimately show ?thesis using False by auto
    next
      assume "x \<in> set (tl (split_on c s))"
      then have "x \<in> set (split_on c s)" using ne by (meson list.set_sel(2))
      then show ?thesis by (rule Cons.IH)
    qed
  qed
qed

lemma last_split_on_no_sep: "c \<notin> set (last (split_on c s))"
  using split_on_elems [of "last (split_on c s)" c s] split_on_nonempty [of c s] by simp

lemma endswith_iff: "endswith s p \<longleftrightarrow> (\<exists>a. s = a @ p)"
proof
  assume "endswith s p"
  then have "s = take (length s - length p) s @ p"
    by (metis endswith_def append_take_drop_id)
  then show "\<exists>a. s = a @ p" ..
next
  assume "\<exists>a. s = a @ p"
  then show "endswith s p" by (auto simp: endswith_def)
qed

lemma basename_path_join:
  assumes "CHR ''/'' \<notin> set b"
  shows "basename (path_join a b) = b"
proof -
  have nb: "\<not> startswith b sep"
    using assms by (cases b) (auto simp: startswith_def sep_def)
  show ?thesis
  proof (cases "a = [] \<or> endswith a sep")
    case True
    then show ?thesis
    proof
      assume "a = []"
      with nb assms show ?thesis
        by (simp add: path_join_def basename_def split_on_no_sep)
    next
      assume e: "endswith a sep"
      then obtain a' where a: "a = a' @ ''/''"
        by (auto simp: endswith_iff sep_def)
      have "path_join a b = a' @ CHR ''/'' # b"
        using nb e a by (simp add: path_join_def)
      then show ?thesis
        using assms by (simp add: basename_def last_split_on_sep split_on_no_sep)
    qed
  next
    case False
    then have "path_join a b = a @ CHR ''/'' # b"
      using nb by (simp add: path_join_def sep_def)
    then show ?thesis
      using assms by (simp add: basename_def last_split_on_sep split_on_no_sep)
  qed
qed

lemma last_split_on_suffix:
  "\<exists>pre. s = pre @ last (split_on c s) \<and> (pre = [] \<or> last pre = c)"
proof (cases "c \<in> set s")
  case False
  then have "last (split_on c s) = s" by (simp add: split_on_no_sep)
  then show ?thesis by simp
next
  case True
  then obtain a b where s: "s = a @ c # b" and b: "c \<notin> set b"
    by (auto dest: split_list_last)
  have "last (split_on c s) = b"
    by (simp add: s last_split_on_sep split_on_no_sep [OF b])
  with s have "s = (a @ [c]) @ last (split_on c s) \<and> last (a @ [c]) = c" by simp
  then show ?thesis by blast
qed

section \<open>The installer rewrite\<close>

lemma suffix_after_sep:
  assumes "x @ c # b = y @ s" and "c \<notin> set s"
  shows "\<exists>z. b = z @ s"
  using assms
proof (induction x arbitrary: y)
  case Nil
  show ?case
  proof (cases y)
    case Nil
    with Nil.prems show ?thesis by (cases s) auto
  next
    case (Cons a y')
    with Nil.prems show ?thesis by auto
  qed
next
  case (Cons a x)
  show ?case
  proof (cases y)
    case Nil
    with Cons.prems have "s = a # x @ c # b" by simp
    with Cons.prems(2) show ?thesis by simp
  next
    case (Cons a' y')
    with Cons.prems have "x @ c # b = y' @ s" by simp
    then show ?thesis using Cons.prems(2) by (rule Cons.IH)
  qed
qed

lemma endswith_after_sep:
  assumes "c \<notin> set s"
  shows "endswith (x @ c # b) s = endswith b s"
proof
  assume "endswith (x @ c # b) s"
  then obtain y where "x @ c # b = y @ s" by (auto simp: endswith_iff)
  then have "\<exists>z. b = z @ s" using assms by (rule suffix_after_sep)
  then show "endswith b s" by (simp add: endswith_iff)
next
  assume "endswith b s"
  then obtain z where "b = z @ s" by (auto simp: endswith_iff)
  then have "x @ c # b = (x @ c # z) @ s" by simp
  then show "endswith (x @ c # b) s" unfolding endswith_iff by blast
qed

lemma path_join_cases:
  "path_join a b = b \<or> (\<exists>x. path_join a b = x @ CHR ''/'' # b)"
proof (cases "startswith b sep")
  case True
  then show ?thesis by (simp add: path_join_def)
next
  case nb: False
  show ?thesis
  proof (cases "a = []")
    case True
    with nb show ?thesis by (simp add: path_join_def)
  next
    case False
    show ?thesis
    proof (cases "endswith a sep")
      case True
      then obtain a' where "a = a' @ ''/''" by (auto simp: endswith_iff sep_def)
      with nb True have "path_join a b = a' @ CHR ''/'' # b" by (simp add: path_join_def)
      then show ?thesis by blast
    next
      case F: False
      with nb False have "path_join a b = a @ CHR ''/'' # b" by (simp add: path_join_def sep_def)
      then show ?thesis by blast
    qed
  qed
qed

lemma endswith_path_join:
  assumes "CHR ''/'' \<notin> set s"
  shows "endswith (path_join a b) s = endswith b s"
  using path_join_cases [of a b] endswith_after_sep [OF assms] by auto

lemma path_join_append:
  assumes "b1 = [] \<longrightarrow> \<not> startswith b2 sep"
  shows "path_join a (b1 @ b2) = path_join a b1 @ b2"
proof -
  have "startswith (b1 @ b2) sep = startswith b1 sep"
    using assms by (cases b1) (auto simp: startswith_def sep_def)
  then show ?thesis by (simp add: path_join_def)
qed

lemma drop_last_append: "length e = n \<Longrightarrow> drop_last n (s @ e) = s"
  by (simp add: drop_last_def)

lemma length_drop_last: "length (drop_last n s) = length s - n"
  by (simp add: drop_last_def)

lemma path_join_nonempty: "b \<noteq> [] \<Longrightarrow> path_join a b \<noteq> []"
  by (auto simp: path_join_def)

text \<open>
  Claim C7, as amended. When the loader's file name does not end in \<open>-installer.jar\<close>,
  the destination and the URL that go to the download are the old ones with their last
  four characters removed and \<open>-installer.jar\<close> appended. So an extension of four
  characters (a dot and three more, as \<open>.jar\<close> and \<open>.zip\<close>) is stripped whole, from the
  file name and from the URL; an extension of another length is not, and the result is
  then not the stem with \<open>-installer.jar\<close>. A file name that already ends in
  \<open>-installer.jar\<close> is left as it is, and so is the URL.
\<close>

theorem installer_rewrite:
  "(\<not> endswith fname ''-installer.jar'' \<longrightarrow>
      installer_target out_dname (JStr fname) (JStr u) =
        Inr (drop_last 4 (path_join out_dname fname) @ ''-installer.jar'',
             JStr (drop_last 4 u @ ''-installer.jar'')))
   \<and> (length ext = 4 \<and> length uext = 4 \<and> \<not> startswith ext sep \<and>
      \<not> endswith (stem @ ext) ''-installer.jar'' \<longrightarrow>
      installer_target out_dname (JStr (stem @ ext)) (JStr (ustem @ uext)) =
        Inr (path_join out_dname (stem @ ''-installer.jar''), JStr (ustem @ ''-installer.jar'')))
   \<and> (length ext \<noteq> 4 \<and> stem \<noteq> [] \<and> \<not> endswith (stem @ ext) ''-installer.jar'' \<longrightarrow>
      (\<forall>url'. installer_target out_dname (JStr (stem @ ext)) (JStr u) \<noteq>
         Inr (path_join out_dname (stem @ ''-installer.jar''), url')))
   \<and> (length uext \<noteq> 4 \<and> ustem \<noteq> [] \<and> \<not> endswith fname ''-installer.jar'' \<longrightarrow>
      (\<forall>dest'. installer_target out_dname (JStr fname) (JStr (ustem @ uext)) \<noteq>
         Inr (dest', JStr (ustem @ ''-installer.jar''))))
   \<and> (endswith fname ''-installer.jar'' \<longrightarrow>
        installer_target out_dname (JStr fname) url = Inr (path_join out_dname fname, url))"
proof -
  have ns: "CHR ''/'' \<notin> set ''-installer.jar''" by simp
  have nsi: "\<not> startswith ''-installer.jar'' sep" by (simp add: startswith_def sep_def)
  have gen: "installer_target out_dname (JStr f) (JStr v) =
        Inr (drop_last 4 (path_join out_dname f) @ ''-installer.jar'',
             JStr (drop_last 4 v @ ''-installer.jar''))"
    if "\<not> endswith f ''-installer.jar''" for f v
  proof -
    have "\<not> endswith (path_join out_dname f) ''-installer.jar''"
      using that endswith_path_join [OF ns] by simp
    then show ?thesis by (simp add: installer_target_def as_str_def Let_def)
  qed
  have p2: "path_join out_dname (stem @ ''-installer.jar'') =
            path_join out_dname stem @ ''-installer.jar''"
    using nsi by (rule path_join_append [OF impI])
  have four: "installer_target out_dname (JStr (stem @ ext)) (JStr (ustem @ uext)) =
        Inr (path_join out_dname (stem @ ''-installer.jar''), JStr (ustem @ ''-installer.jar''))"
    if e4: "length ext = 4" and u4: "length uext = 4" and nse: "\<not> startswith ext sep"
      and ne: "\<not> endswith (stem @ ext) ''-installer.jar''"
  proof -
    have p1: "path_join out_dname (stem @ ext) = path_join out_dname stem @ ext"
      using nse by (simp add: path_join_append)
    have d1: "drop_last 4 (path_join out_dname (stem @ ext)) = path_join out_dname stem"
      unfolding p1 using e4 by (rule drop_last_append)
    have d2: "drop_last 4 (ustem @ uext) = ustem" using u4 by (rule drop_last_append)
    show ?thesis unfolding gen [OF ne] d1 d2 p2 ..
  qed
  have other: "installer_target out_dname (JStr (stem @ ext)) (JStr u) \<noteq>
         Inr (path_join out_dname (stem @ ''-installer.jar''), url')"
    if e4: "length ext \<noteq> 4" and st: "stem \<noteq> []"
      and ne: "\<not> endswith (stem @ ext) ''-installer.jar''" for url'
  proof -
    have p1: "path_join out_dname (stem @ ext) = path_join out_dname stem @ ext"
      using st by (simp add: path_join_append)
    have "length (path_join out_dname stem) \<noteq> 0" using path_join_nonempty [OF st] by simp
    with e4 have "length (drop_last 4 (path_join out_dname stem @ ext)) \<noteq>
        length (path_join out_dname stem)"
      unfolding length_drop_last length_append by arith
    then have "drop_last 4 (path_join out_dname stem @ ext) \<noteq> path_join out_dname stem"
      by metis
    then show ?thesis unfolding gen [OF ne] p1 p2 by simp
  qed
  have uother: "installer_target out_dname (JStr fname) (JStr (ustem @ uext)) \<noteq>
         Inr (dest', JStr (ustem @ ''-installer.jar''))"
    if u4: "length uext \<noteq> 4" and st: "ustem \<noteq> []"
      and ne: "\<not> endswith fname ''-installer.jar''" for dest'
  proof -
    from st have "length ustem \<noteq> 0" by simp
    with u4 have "length (drop_last 4 (ustem @ uext)) \<noteq> length ustem"
      unfolding length_drop_last length_append by arith
    then have "drop_last 4 (ustem @ uext) \<noteq> ustem" by metis
    then show ?thesis unfolding gen [OF ne] by simp
  qed
  have same: "installer_target out_dname (JStr fname) url = Inr (path_join out_dname fname, url)"
    if h: "endswith fname ''-installer.jar''"
  proof -
    have "endswith (path_join out_dname fname) ''-installer.jar''"
      using h endswith_path_join [OF ns] by simp
    then show ?thesis by (simp add: installer_target_def as_str_def Let_def)
  qed
  from gen [of fname u] four other uother same show ?thesis by blast
qed

text \<open>
  Claim C7, as stated, fails for an archive extension that is not four characters long:
  \<open>forge.7z\<close> does not become \<open>forge-installer.jar\<close>.
\<close>

theorem short_extension_counterexample:
  "endswith ''forge.7z'' ''.7z'' \<and> endswith ''https://files/forge.7z'' ''.7z''
   \<and> endswith ''forge.7z'' ''-installer.jar'' = False
   \<and> installer_target ''pack'' (JStr ''forge.7z'') (JStr ''https://files/forge.7z'') =
       Inr (''pack/forg-installer.jar'', JStr ''https://files/forg-installer.jar'')"
  by (simp add: installer_target_def as_str_def endswith_def path_join_def startswith_def
        sep_def drop_last_def Let_def)

text \<open>The example of the specification, \<open>forge-36.0.0.jar\<close>, and a longer extension.\<close>

theorem installer_rewrite_witness:
  "installer_target ''pack'' (JStr ''forge-36.0.0.jar'') (JStr ''https://files/forge-36.0.0.jar'') =
     Inr (''pack/forge-36.0.0-installer.jar'', JStr ''https://files/forge-36.0.0-installer.jar'')
   \<and> installer_target ''pack'' (JStr ''forge-36.0.0-installer.jar'') (JStr ''https://files/forge-36.0.0-installer.jar'') =
     Inr (''pack/forge-36.0.0-installer.jar'', JStr ''https://files/forge-36.0.0-installer.jar'')
   \<and> installer_target ''pack'' (JStr ''forge.tar.gz'') (JStr ''https://files/forge.tar.gz'') =
     Inr (''pack/forge.ta-installer.jar'', JStr ''https://files/forge.ta-installer.jar'')
   \<and> installer_target ''pack'' (JStr ''forge.tar.gz'') (JStr ''https://files/forge.tar.gz'') \<noteq>
     Inr (''pack/forge-installer.jar'', JStr ''https://files/forge-installer.jar'')"
proof -
  have e: "endswith ''forge-36.0.0.jar'' ''-installer.jar'' = False"
    "endswith ''forge-36.0.0-installer.jar'' ''-installer.jar''"
    "endswith ''forge.tar.gz'' ''-installer.jar'' = False"
    by (simp_all add: endswith_def)
  have p: "path_join ''pack'' ''forge-36.0.0-installer.jar'' = ''pack/forge-36.0.0-installer.jar''"
    "path_join ''pack'' ''forge.tar.gz'' = ''pack/forge.tar.gz''"
    "path_join ''pack'' ''forge-installer.jar'' = ''pack/forge-installer.jar''"
    by (simp_all add: path_join_def startswith_def endswith_def sep_def)
  have s: "\<not> startswith ''.jar'' sep" by (simp add: startswith_def sep_def)
  note t1 = installer_rewrite [where fname = "''forge-36.0.0-installer.jar''"
      and out_dname = "''pack''" and ext = "''.jar''" and uext = "''.jar''"
      and stem = "''forge-36.0.0''" and ustem = "''https://files/forge-36.0.0''"
      and url = "JStr ''https://files/forge-36.0.0-installer.jar''"]
  note t2 = installer_rewrite [where fname = "''forge.tar.gz''" and out_dname = "''pack''"
      and u = "''https://files/forge.tar.gz''" and ext = "''.tar.gz''" and stem = "''forge''"]
  from t1 e p s have a:
    "installer_target ''pack'' (JStr ''forge-36.0.0.jar'') (JStr ''https://files/forge-36.0.0.jar'') =
     Inr (''pack/forge-36.0.0-installer.jar'', JStr ''https://files/forge-36.0.0-installer.jar'')"
    "installer_target ''pack'' (JStr ''forge-36.0.0-installer.jar'') (JStr ''https://files/forge-36.0.0-installer.jar'') =
     Inr (''pack/forge-36.0.0-installer.jar'', JStr ''https://files/forge-36.0.0-installer.jar'')"
    by simp_all
  from t2 e p have b:
    "installer_target ''pack'' (JStr ''forge.tar.gz'') (JStr ''https://files/forge.tar.gz'') =
     Inr (''pack/forge.ta-installer.jar'', JStr ''https://files/forge.ta-installer.jar'')"
    "installer_target ''pack'' (JStr ''forge.tar.gz'') (JStr ''https://files/forge.tar.gz'') \<noteq>
     Inr (''pack/forge-installer.jar'', JStr ''https://files/forge-installer.jar'')"
    by (simp_all add: drop_last_def)
  from a b show ?thesis by simp
qed

section \<open>Validity check and loader selection\<close>

lemmas prog_defs = andthen_def ret_def raise_def lift_def try_except_def print_def

lemma resolve_out [simp]: "resolve (w\<lparr>out := x\<rparr>) p = resolve w p"
  by (simp add: resolve_def getcwd_def)

lemma select_loader_append:
  "select_loader cur (xs @ ys) =
     (case select_loader cur xs of Inl e \<Rightarrow> Inl e | Inr c \<Rightarrow> select_loader c ys)"
  by (induction xs arbitrary: cur) (auto split: sum.splits)

lemma select_loader_skip:
  "\<forall>y\<in>set ys. \<exists>q. subscr y ''primary'' = Inr q \<and> \<not> truthy q \<Longrightarrow> select_loader cur ys = Inr cur"
  by (induction ys arbitrary: cur) auto

text \<open>
  Claim C9. When several entries of \<open>modLoaders\<close> are flagged primary, the loop keeps
  the id of the last of them: whatever the entries before it selected, the loader phase
  continues with \<open>get_modloader_info\<close> of that id, and the request it makes is the one
  for that id.
\<close>

theorem last_primary_wins:
  assumes "select_loader None xs = Inr c"
      and "subscr l ''primary'' = Inr p" and "truthy p" and "subscr l ''id'' = Inr i"
      and "\<forall>y\<in>set ys. \<exists>q. subscr y ''primary'' = Inr q \<and> \<not> truthy q"
      and "subscr mf ''minecraft'' = Inr mc"
      and "subscr mc ''modLoaders'' = Inr (JArr (xs @ l # ys))"
      and "quote i = Inr q"
  shows "select_loader None (xs @ l # ys) = Inr (Some i)
       \<and> loader_phase mf out_dname w =
           andthen (get_modloader_info i) (install_loader i out_dname)
             (w\<lparr>out := out w @ [RetrievingForge]\<rparr>)
       \<and> reqs (snd (get_modloader_info i w')) = reqs w' @ [modloader_request q]"
proof -
  have sel: "select_loader None (xs @ l # ys) = Inr (Some i)"
    using assms(1-4) select_loader_skip [OF assms(5), of "Some i"]
    by (simp add: select_loader_append)
  have ph: "loader_phase mf out_dname w =
           andthen (get_modloader_info i) (install_loader i out_dname)
             (w\<lparr>out := out w @ [RetrievingForge]\<rparr>)"
    unfolding loader_phase_def
    using assms(6,7) sel
    by (simp add: andthen_def lift_def print_def)
  have rq: "reqs (snd (get_modloader_info i w')) = reqs w' @ [modloader_request q]"
    using assms(8)
    by (simp add: get_modloader_info_def andthen_def lift_def session_get_def
          raise_for_status_def response_json_def Let_def split: reply.splits option.splits)
  show ?thesis using sel ph rq by simp
qed

text \<open>
  Claim C4, on the code. When no entry of \<open>modLoaders\<close> is flagged primary the loop
  never assigns \<open>modloader_id\<close>, and the loader phase ends in \<open>UnboundLocalError\<close> after
  printing \<open>Retrieving Forge...\<close>: no request is made and nothing about the missing
  primary loader is printed.
\<close>

theorem no_primary_is_unbound:
  assumes "\<forall>l\<in>set ls. \<exists>q. subscr l ''primary'' = Inr q \<and> \<not> truthy q"
      and "subscr mf ''minecraft'' = Inr mc"
      and "subscr mc ''modLoaders'' = Inr (JArr ls)"
  shows "loader_phase mf out_dname w =
           (Inl UnboundLocalError, w\<lparr>out := out w @ [RetrievingForge]\<rparr>)"
  unfolding loader_phase_def
  using assms(2,3) select_loader_skip [OF assms(1), of None]
  by (simp add: andthen_def lift_def print_def raise_def)

text \<open>
  Claim C8. For an archive whose manifest has a \<open>manifestType\<close> other than
  \<open>minecraftModpack\<close>, the validity check returns \<open>False\<close> and the run only prints that
  the archive is not a valid modpack: the file system, the requests and the processes
  are as before.
\<close>

theorem wrong_manifest_type_no_output:
  assumes "tgt \<noteq> []"
      and "fs w (resolve w tgt) = Some (File (Zip zf))"
      and "zip_lookup zf ''manifest.json'' = Some txt"
      and "json_loads w txt = Some mf"
      and "subscr mf ''manifestType'' = Inr t"
      and "t \<noteq> JStr ''minecraftModpack''"
  shows "is_modpack_zip tgt w = (Inr False, w)
       \<and> main (prog # tgt # args) w =
           (Inr (), w\<lparr>out := out w @
              (if ''-h'' \<in> set (prog # tgt # args) \<or> ''--help'' \<in> set (prog # tgt # args)
               then [Usage] else []) @ [NotValid tgt]\<rparr>)"
proof -
  have v: "\<And>x. is_modpack_zip tgt (w\<lparr>out := x\<rparr>) = (Inr False, w\<lparr>out := x\<rparr>)"
    using assms
    by (simp add: is_modpack_zip_def zipfile_is_zipfile_def zipfile_open_def get_manifest_def
          prog_defs)
  have "is_modpack_zip tgt (w\<lparr>out := out w\<rparr>) = (Inr False, w\<lparr>out := out w\<rparr>)" by (rule v)
  then have 1: "is_modpack_zip tgt w = (Inr False, w)" by simp
  have 2: "main (prog # tgt # args) w =
           (Inr (), w\<lparr>out := out w @
              (if ''-h'' \<in> set (prog # tgt # args) \<or> ''--help'' \<in> set (prog # tgt # args)
               then [Usage] else []) @ [NotValid tgt]\<rparr>)"
    using v 1 by (simp add: main_def prog_defs Let_def)
  show ?thesis using 1 2 by simp
qed

text \<open>
  Claim C3, on the code. For a zip archive whose \<open>manifest.json\<close> the JSON decoder
  rejects, the validity check does not return: the decoder's exception is not a
  \<open>KeyError\<close>, so it leaves \<open>is_modpack_zip\<close>.
\<close>

theorem undecodable_manifest_raises:
  assumes "tgt \<noteq> []"
      and "fs w (resolve w tgt) = Some (File (Zip zf))"
      and "zip_lookup zf ''manifest.json'' = Some txt"
      and "json_loads w txt = None"
  shows "is_modpack_zip tgt w = (Inl JSONDecodeError, w)"
  using assms
  by (simp add: is_modpack_zip_def zipfile_is_zipfile_def zipfile_open_def get_manifest_def
        prog_defs)

section \<open>The catalog requests and the reuse of existing files\<close>

lemma resolve_reqs [simp]: "resolve (w\<lparr>reqs := x\<rparr>) p = resolve w p"
  by (simp add: resolve_def getcwd_def)

lemma resolve_set_fs [simp]: "resolve (set_fs f w) p = resolve w p"
  by (simp add: resolve_def getcwd_def set_fs_def put_fs_def)

lemma put_fs_sel [simp]:
  "fs (put_fs ks f w) = f" "hist (put_fs ks f w) = hist w @ [f]"
  "reqs (put_fs ks f w) = reqs w" "cwd_tail (put_fs ks f w) = cwd_tail w"
  "tmp_tail (put_fs ks f w) = tmp_tail w" "json_loads (put_fs ks f w) = json_loads w"
  by (simp_all add: put_fs_def)

lemma resolve_put_fs [simp]: "resolve (put_fs ks f w) p = resolve w p"
  by (simp add: resolve_def getcwd_def)

lemma os_path_exists_frame [simp]:
  "os_path_exists (w\<lparr>reqs := x\<rparr>) p = os_path_exists w p"
  "os_path_exists (w\<lparr>out := y\<rparr>) p = os_path_exists w p"
  by (simp_all add: os_path_exists_def)

lemma get_info_ok:
  assumes "get_info pid w = (Inr j, w1)"
  shows "\<exists>p. format_int pid = Inr p \<and> w1 = w\<lparr>reqs := reqs w @ [info_request p]\<rparr>"
  using assms
  by (auto simp: get_info_def andthen_def lift_def session_get_def raise_for_status_def
        response_json_def Let_def split: sum.splits reply.splits if_splits option.splits)

lemma get_download_url_ok:
  assumes "get_download_url pid fid w = (Inr u, w1)"
  shows "\<exists>p q. format_int pid = Inr p \<and> format_int fid = Inr q \<and>
           w1 = w\<lparr>reqs := reqs w @ [download_url_request p q]\<rparr>"
  using assms
  by (auto simp: get_download_url_def andthen_def lift_def ret_def session_get_def
        raise_for_status_def Let_def split: sum.splits reply.splits if_splits)

lemma catalog_lookup_ok:
  assumes "catalog_lookup f w = (Inr (mod_info, url), w1)"
  shows "\<exists>pid fid p q. subscr f ''projectID'' = Inr pid \<and> format_int pid = Inr p \<and>
           subscr f ''fileID'' = Inr fid \<and> format_int fid = Inr q \<and>
           w1 = w\<lparr>reqs := reqs w @ [info_request p, download_url_request p q]\<rparr>"
proof -
  from assms obtain pid where pid: "subscr f ''projectID'' = Inr pid"
    by (auto simp: catalog_lookup_def andthen_def lift_def split: sum.splits)
  from assms pid obtain j wa where gi: "get_info pid w = (Inr j, wa)"
    by (auto simp: catalog_lookup_def andthen_def lift_def split: sum.splits prod.splits)
  from assms pid gi obtain fid where fid: "subscr f ''fileID'' = Inr fid"
    by (auto simp: catalog_lookup_def andthen_def lift_def split: sum.splits)
  from assms pid gi fid have gd: "get_download_url pid fid wa = (Inr url, w1)"
    by (auto simp: catalog_lookup_def andthen_def lift_def ret_def split: sum.splits prod.splits)
  from get_info_ok [OF gi] obtain p where p: "format_int pid = Inr p"
    and wa: "wa = w\<lparr>reqs := reqs w @ [info_request p]\<rparr>" by blast
  from get_download_url_ok [OF gd] obtain p' q where p': "format_int pid = Inr p'"
    and q: "format_int fid = Inr q"
    and w1: "w1 = wa\<lparr>reqs := reqs wa @ [download_url_request p' q]\<rparr>" by blast
  from p p' have "p' = p" by simp
  with wa w1 have "w1 = w\<lparr>reqs := reqs w @ [info_request p, download_url_request p q]\<rparr>"
    by simp
  with pid fid p q show ?thesis by blast
qed


lemma andthen_cases:
  assumes "andthen m f w = (r, w')"
  obtains (fail) e where "m w = (Inl e, w')" and "r = Inl e"
        | (ok) x w1 where "m w = (Inr x, w1)" and "f x w1 = (r, w')"
  using assms by (auto simp: andthen_def split: prod.splits sum.splits)

lemma extends_reqsI: "(\<And>w. prefix (reqs w) (reqs (snd (m w)))) \<Longrightarrow> extends_reqs m"
  by (simp add: extends_reqs_def)

lemma extends_reqsD: "extends_reqs m \<Longrightarrow> prefix (reqs w) (reqs (snd (m w)))"
  by (simp add: extends_reqs_def)

lemma extends_andthen:
  assumes "extends_reqs m" and "\<And>x. extends_reqs (f x)"
  shows "extends_reqs (andthen m f)"
proof (rule extends_reqsI)
  fix w
  obtain r w1 where mw: "m w = (r, w1)" by (cases "m w")
  have p1: "prefix (reqs w) (reqs w1)" using extends_reqsD [OF assms(1), of w] mw by simp
  show "prefix (reqs w) (reqs (snd (andthen m f w)))"
  proof (cases r)
    case (Inl e)
    with mw p1 show ?thesis by (simp add: andthen_def)
  next
    case (Inr x)
    have "prefix (reqs w1) (reqs (snd (f x w1)))" by (rule extends_reqsD [OF assms(2)])
    with p1 have "prefix (reqs w) (reqs (snd (f x w1)))" by (rule prefix_order.trans)
    with mw Inr show ?thesis by (simp add: andthen_def)
  qed
qed

lemma extends_basic [simp]:
  "extends_reqs (ret x)" "extends_reqs (raise e)" "extends_reqs (lift r)" "extends_reqs (print m)"
  by (simp_all add: extends_reqs_def ret_def raise_def lift_def print_def)

lemma extends_if [simp]:
  "extends_reqs a \<Longrightarrow> extends_reqs b \<Longrightarrow> extends_reqs (if c then a else b)"
  by simp

lemma reqs_set_fs [simp]: "reqs (set_fs f w) = reqs w"
  by (simp add: set_fs_def put_fs_def)

lemma extends_write_chunks [simp]: "extends_reqs (write_chunks k cs)"
proof (rule extends_reqsI)
  fix w
  have "reqs (snd (write_chunks k cs w)) = reqs w"
    by (induction cs arbitrary: w) (auto simp: fd_write_def)
  then show "prefix (reqs w) (reqs (snd (write_chunks k cs w)))" by simp
qed

lemma extends_os_rename [simp]: "extends_reqs (os_rename a b)"
  by (auto simp: extends_reqs_def os_rename_def Let_def split: option.splits node.splits)

lemma extends_shutil_move [simp]: "extends_reqs (shutil_move a b)"
proof (rule extends_reqsI)
  fix w
  show "prefix (reqs w) (reqs (snd (shutil_move a b w)))"
    using extends_reqsD [OF extends_os_rename]
    by (simp add: shutil_move_def Let_def)
qed

lemma extends_open_wb [simp]: "extends_reqs (open_wb p)"
  by (auto simp: extends_reqs_def open_wb_def Let_def)

lemma extends_session_get [simp]: "extends_reqs (session_get url st)"
  by (auto simp: extends_reqs_def session_get_def Let_def split: json.splits reply.splits)

lemma extends_raise_for_status [simp]: "extends_reqs (raise_for_status r)"
  by (simp add: extends_reqs_def raise_for_status_def)

lemma extends_download_to_file: "extends_reqs (download_to_file url file ov)"
proof (rule extends_reqsI)
  fix w
  have "extends_reqs
          (andthen (session_get url True) (\<lambda>r.
           andthen (raise_for_status r) (\<lambda>u.
           andthen (open_wb (file @ ''.part'')) (\<lambda>fd.
           andthen (write_chunks fd (chunks r)) (\<lambda>u.
           andthen (if truncated r then raise RequestException else ret ()) (\<lambda>u.
           shutil_move (file @ ''.part'') file))))))"
    by (intro extends_andthen extends_if) simp_all
  then show "prefix (reqs w) (reqs (snd (download_to_file url file ov w)))"
    by (auto simp: download_to_file_def Let_def dest: extends_reqsD)
qed

lemma download_manifest_file_unfold:
  assumes "catalog_lookup f w = (Inr (mod_info, url), w1)"
      and "subscr f ''required'' = Inr rq"
  shows "download_manifest_file f folder force w =
           (if os_path_exists w1 (manifest_destpath url folder rq) \<and> \<not> force then
              andthen (lift (subscr mod_info ''name'')) (\<lambda>nm. print (Reused nm)) w1
            else
              andthen (lift (subscr mod_info ''name'')) (\<lambda>nm.
              andthen (print (Downloading nm)) (\<lambda>u.
              download_to_file (JStr url) (manifest_destpath url folder rq) False)) w1)"
  using assms by (simp add: download_manifest_file_def andthen_def lift_def Let_def)

text \<open>
  Claim C6. The local destination of a file record is the folder joined with the final
  path segment of the resolved download URL, that is, with what follows the last slash
  of the URL, so its file name is that segment; when the record's \<open>required\<close> is false
  the name carries the suffix \<open>.disabled\<close>, and when it is true it does not. This is
  the path \<open>download_manifest_file\<close> hands to the download.
\<close>

theorem destpath_is_last_segment:
  "manifest_destpath url folder required =
     path_join folder (last (split_on CHR ''/'' url)) @ (if truthy required then [] else ''.disabled'')
   \<and> manifest_destpath url folder (JBool True) = path_join folder (last (split_on CHR ''/'' url))
   \<and> manifest_destpath url folder (JBool False) =
       path_join folder (last (split_on CHR ''/'' url)) @ ''.disabled''
   \<and> CHR ''/'' \<notin> set (last (split_on CHR ''/'' url))
   \<and> (\<exists>pre. url = pre @ last (split_on CHR ''/'' url) \<and> (pre = [] \<or> last pre = CHR ''/''))
   \<and> basename (manifest_destpath url folder (JBool True)) = last (split_on CHR ''/'' url)
   \<and> basename (manifest_destpath url folder (JBool False)) =
       last (split_on CHR ''/'' url) @ ''.disabled''
   \<and> (\<forall>f w mod_info w1 nm force.
         catalog_lookup f w = (Inr (mod_info, url), w1) \<and> subscr f ''required'' = Inr required \<and>
         subscr mod_info ''name'' = Inr nm \<and>
         (force \<or> \<not> os_path_exists w1 (manifest_destpath url folder required))
         \<longrightarrow>
         download_manifest_file f folder force w =
           download_to_file (JStr url)
             (path_join folder (last (split_on CHR ''/'' url)) @
                (if truthy required then [] else ''.disabled''))
             False (w1\<lparr>out := out w1 @ [Downloading nm]\<rparr>))"
proof -
  let ?fn = "last (split_on CHR ''/'' url)"
  have ns: "CHR ''/'' \<notin> set ?fn" by (rule last_split_on_no_sep)
  have 0: "manifest_destpath url folder rq =
             path_join folder ?fn @ (if truthy rq then [] else ''.disabled'')" for rq
    by (simp add: manifest_destpath_def Let_def)
  have 1: "basename (path_join folder ?fn) = ?fn" using ns by (rule basename_path_join)
  have 2: "basename (path_join folder ?fn @ ''.disabled'') = ?fn @ ''.disabled''"
    using 1 by (simp add: basename_def last_split_on_append)
  have 3: "\<exists>pre. url = pre @ ?fn \<and> (pre = [] \<or> last pre = CHR ''/'')"
    by (rule last_split_on_suffix)
  have 4: "download_manifest_file f folder force w =
           download_to_file (JStr url)
             (path_join folder ?fn @ (if truthy required then [] else ''.disabled''))
             False (w1\<lparr>out := out w1 @ [Downloading nm]\<rparr>)"
    if "catalog_lookup f w = (Inr (mod_info, url), w1)" and "subscr f ''required'' = Inr required"
      and "subscr mod_info ''name'' = Inr nm"
      and "force \<or> \<not> os_path_exists w1 (manifest_destpath url folder required)"
    for f w mod_info w1 nm force
    using that(3,4) unfolding download_manifest_file_unfold [OF that(1,2)] 0
    by (auto simp: andthen_def lift_def print_def)
  have 5: "manifest_destpath url folder (JBool True) = path_join folder ?fn"
    "manifest_destpath url folder (JBool False) = path_join folder ?fn @ ''.disabled''"
    by (simp_all add: 0)
  from 0 [of required] 5 ns 3 1 2 4 show ?thesis
    by (simp only: 5) blast
qed

text \<open>
  Claim C10. Whenever the step for a file record completes, the first two requests it
  has made are the add-on metadata request and the download-url request for the
  record's ids, in this order, made by \<open>catalog_lookup\<close> before the destination is looked
  at. When the destination exists and the download is not forced these are the only
  requests, and the file system is untouched: a run that downloads nothing still makes
  two requests for every mod.
\<close>

theorem catalog_requests_come_first:
  assumes "download_manifest_file f folder force w = (Inr (), w')"
  shows "\<exists>pid fid p q mod_info url rq rest.
           subscr f ''projectID'' = Inr pid \<and> format_int pid = Inr p \<and>
           subscr f ''fileID'' = Inr fid \<and> format_int fid = Inr q \<and>
           catalog_lookup f w =
             (Inr (mod_info, url), w\<lparr>reqs := reqs w @ [info_request p, download_url_request p q]\<rparr>) \<and>
           subscr f ''required'' = Inr rq \<and>
           reqs w' = reqs w @ [info_request p, download_url_request p q] @ rest \<and>
           (os_path_exists w (manifest_destpath url folder rq) \<and> \<not> force \<longrightarrow>
              rest = [] \<and> fs w' = fs w \<and> hist w' = hist w)"
proof -
  from assms obtain mi url w1 where cl: "catalog_lookup f w = (Inr (mi, url), w1)"
    unfolding download_manifest_file_def
    by (auto elim!: andthen_cases)
  from assms cl obtain rq where rq: "subscr f ''required'' = Inr rq"
    unfolding download_manifest_file_def
    by (auto simp: andthen_def lift_def split: sum.splits)
  from catalog_lookup_ok [OF cl] obtain pid fid p q where
    ids: "subscr f ''projectID'' = Inr pid" "format_int pid = Inr p"
         "subscr f ''fileID'' = Inr fid" "format_int fid = Inr q"
    and w1: "w1 = w\<lparr>reqs := reqs w @ [info_request p, download_url_request p q]\<rparr>" by blast
  let ?d = "manifest_destpath url folder rq"
  have ex1: "os_path_exists w1 ?d = os_path_exists w ?d" using w1 by simp
  note unf = download_manifest_file_unfold [OF cl rq, of folder force]
  show ?thesis
  proof (cases "os_path_exists w ?d \<and> \<not> force")
    case True
    with unf ex1 assms obtain nm where "w' = w1\<lparr>out := out w1 @ [Reused nm]\<rparr>"
      by (auto simp: andthen_def lift_def print_def split: sum.splits)
    with w1 have "reqs w' = reqs w @ [info_request p, download_url_request p q] @ []"
      and "fs w' = fs w" and "hist w' = hist w" by simp_all
    with ids cl w1 rq show ?thesis by blast
  next
    case False
    with unf ex1 assms obtain nm where
      dl: "download_to_file (JStr url) ?d False (w1\<lparr>out := out w1 @ [Downloading nm]\<rparr>) = (Inr (), w')"
      by (auto simp: andthen_def lift_def print_def split: sum.splits)
    have "prefix (reqs (w1\<lparr>out := out w1 @ [Downloading nm]\<rparr>)) (reqs w')"
      using extends_reqsD [OF extends_download_to_file, of "w1\<lparr>out := out w1 @ [Downloading nm]\<rparr>"
          "JStr url" ?d False] dl by simp
    then obtain rest where "reqs w' = reqs w1 @ rest" by (auto simp: prefix_def)
    with w1 have "reqs w' = reqs w @ [info_request p, download_url_request p q] @ rest" by simp
    with ids cl w1 rq False show ?thesis by blast
  qed
qed

text \<open>
  Claim C5. Without forcing, a file record whose derived destination exists is logged
  as reused: the step ends normally, the file system and its history are as before, and
  the only requests are the two catalog requests. A loader installer that exists makes
  \<open>download_to_file\<close> raise \<open>FileExistsError\<close> before any request; the loader phase takes
  this as installed and goes on to run the installer.
\<close>

theorem existing_targets_are_reused:
  "(catalog_lookup f w = (Inr (mod_info, url), w1) \<and> subscr f ''required'' = Inr rq \<and>
    subscr mod_info ''name'' = Inr nm \<and> os_path_exists w (manifest_destpath url folder rq) \<longrightarrow>
      download_manifest_file f folder False w = (Inr (), w1\<lparr>out := out w1 @ [Reused nm]\<rparr>) \<and>
      fs w1 = fs w \<and> hist w1 = hist w)
   \<and> (py_in ''downloadUrl'' loader_info = Inr True \<and>
      subscr loader_info ''filename'' = Inr dest_fname \<and>
      subscr loader_info ''downloadUrl'' = Inr url0 \<and>
      installer_target out_dname dest_fname url0 = Inr (dest_path, lurl) \<and>
      subscr loader_info ''name'' = Inr lnm \<and> os_path_exists w dest_path \<longrightarrow>
        download_to_file lurl dest_path False w = (Inl FileExistsError, w) \<and>
        install_loader modloader_id out_dname loader_info w =
          (Inr (), w\<lparr>out := out w @ [DownloadingLoader lnm, RunningInstaller, Done],
                      procs := procs w @ [[''java'', ''-jar'', dest_path]]\<rparr>))"
proof (intro conjI impI)
  assume h: "catalog_lookup f w = (Inr (mod_info, url), w1) \<and> subscr f ''required'' = Inr rq \<and>
    subscr mod_info ''name'' = Inr nm \<and> os_path_exists w (manifest_destpath url folder rq)"
  from h have cl: "catalog_lookup f w = (Inr (mod_info, url), w1)" by simp
  from catalog_lookup_ok [OF cl] obtain p q where
    w1: "w1 = w\<lparr>reqs := reqs w @ [info_request p, download_url_request p q]\<rparr>" by blast
  from w1 show "fs w1 = fs w" by simp
  from w1 show "hist w1 = hist w" by simp
  from w1 h have "os_path_exists w1 (manifest_destpath url folder rq)" by simp
  with h download_manifest_file_unfold [OF cl, of rq folder False]
  show "download_manifest_file f folder False w = (Inr (), w1\<lparr>out := out w1 @ [Reused nm]\<rparr>)"
    by (simp add: andthen_def lift_def print_def)
next
  assume h: "py_in ''downloadUrl'' loader_info = Inr True \<and>
      subscr loader_info ''filename'' = Inr dest_fname \<and>
      subscr loader_info ''downloadUrl'' = Inr url0 \<and>
      installer_target out_dname dest_fname url0 = Inr (dest_path, lurl) \<and>
      subscr loader_info ''name'' = Inr lnm \<and> os_path_exists w dest_path"
  then show dl: "download_to_file lurl dest_path False w = (Inl FileExistsError, w)"
    by (simp add: download_to_file_def)
  have "\<And>x. download_to_file lurl dest_path False (w\<lparr>out := x\<rparr>) = (Inl FileExistsError, w\<lparr>out := x\<rparr>)"
    using h by (simp add: download_to_file_def)
  with h show "install_loader modloader_id out_dname loader_info w =
          (Inr (), w\<lparr>out := out w @ [DownloadingLoader lnm, RunningInstaller, Done],
                      procs := procs w @ [[''java'', ''-jar'', dest_path]]\<rparr>)"
    by (simp add: install_loader_def andthen_def lift_def print_def try_except_def ret_def
          subprocess_run_def)
qed

section \<open>Paths after normalisation\<close>

lemma norm_step_plain:
  "c \<noteq> [] \<Longrightarrow> c \<noteq> ''.'' \<Longrightarrow> c \<noteq> ''..'' \<Longrightarrow> norm_step r acc c = acc @ [c]"
  by (simp add: norm_step_def)

lemma norm_step_empty [simp]: "norm_step r acc [] = acc"
  by (simp add: norm_step_def)


lemma getcwd_rooted: "startswith (getcwd w) sep"
  by (simp add: getcwd_def startswith_def sep_def)

lemma path_join_rooted: "startswith a sep \<Longrightarrow> startswith (path_join a b) sep"
  by (cases a) (auto simp: path_join_def startswith_def sep_def)

lemma abs_comps_absolute: "abs_comps cwd p = norm_comps (absolute cwd p)"
  by (simp add: abs_comps_def absolute_def)

lemma absolute_rooted: "startswith cwd sep \<Longrightarrow> startswith (absolute cwd p) sep"
  by (simp add: absolute_def path_join_rooted)



lemma norm_comps_rooted:
  "startswith X sep \<Longrightarrow> norm_comps X = foldl (norm_step True) [] (split_on CHR ''/'' X)"
  by (simp add: norm_comps_def)

lemma rooted_append: "startswith X sep \<Longrightarrow> startswith (X @ s) sep"
  by (cases X) (auto simp: startswith_def sep_def)




lemma norm_comps_trailing_sep:
  assumes "startswith (X @ ''/'') sep"
  shows "norm_comps (X @ ''/'') = foldl (norm_step True) [] (split_on CHR ''/'' X)"
proof -
  have "split_on CHR ''/'' (X @ CHR ''/'' # []) = split_on CHR ''/'' X @ [[]]"
    by (simp only: split_on_append_sep split_on.simps)
  then show ?thesis using assms by (simp add: norm_comps_def)
qed


lemma path_join_plain:
  assumes "\<not> startswith b sep"
  shows "path_join a b = (if a = [] \<or> endswith a sep then a @ b else a @ ''/'' @ b)"
  using assms by (simp add: path_join_def sep_def)




section \<open>The download\<close>













section \<open>Normalised paths and containment\<close>

lemma split_on_join_on:
  assumes "xs \<noteq> []" and "\<forall>x\<in>set xs. c \<notin> set x"
  shows "split_on c (join_on [c] xs) = xs"
  using assms
proof (induction xs)
  case Nil
  then show ?case by simp
next
  case (Cons w ws)
  show ?case
  proof (cases ws)
    case Nil
    with Cons.prems show ?thesis by (simp add: split_on_no_sep)
  next
    case (Cons v vs)
    have "split_on c (w @ c # join_on [c] (v # vs)) =
          split_on c w @ split_on c (join_on [c] (v # vs))"
      by (rule split_on_append_sep)
    with Cons Cons.prems Cons.IH show ?thesis by (simp add: split_on_no_sep)
  qed
qed

lemma foldl_norm_step_plain:
  "\<forall>c\<in>set cs. plain c \<Longrightarrow> foldl (norm_step r) acc cs = acc @ cs"
  by (induction cs arbitrary: acc) (auto simp: plain_def norm_step_plain)

lemma norm_step_keeps_plain:
  assumes "\<forall>a\<in>set acc. plain a" and "CHR ''/'' \<notin> set c"
  shows "\<forall>x\<in>set (norm_step True acc c). plain x"
proof (cases "c = [] \<or> c = ''.''")
  case True
  with assms show ?thesis by (auto simp: norm_step_def)
next
  case False
  show ?thesis
  proof (cases "c = ''..''")
    case True
    have "acc \<noteq> [] \<Longrightarrow> last acc \<noteq> ''..''"
      using assms(1) last_in_set [of acc] by (auto simp: plain_def)
    with True assms(1) show ?thesis
      by (auto simp: norm_step_def dest: in_set_butlastD)
  next
    case F: False
    with False assms show ?thesis by (auto simp: norm_step_def plain_def)
  qed
qed

lemma foldl_norm_step_keeps_plain:
  assumes "\<forall>a\<in>set acc. plain a" and "\<forall>c\<in>set cs. CHR ''/'' \<notin> set c"
  shows "\<forall>x\<in>set (foldl (norm_step True) acc cs). plain x"
  using assms
proof (induction cs arbitrary: acc)
  case Nil
  then show ?case by simp
next
  case (Cons c cs)
  have "\<forall>x\<in>set (norm_step True acc c). plain x"
    using Cons.prems by (intro norm_step_keeps_plain) auto
  then show ?case using Cons by simp
qed

lemma norm_comps_plain:
  assumes "startswith X sep"
  shows "\<forall>x\<in>set (norm_comps X). plain x"
  unfolding norm_comps_rooted [OF assms]
  by (rule foldl_norm_step_keeps_plain) (auto dest: split_on_elems)

text \<open>The string \<open>normpath\<close> returns for an absolute path.\<close>

lemma normpath_rooted:
  assumes "startswith X sep"
  shows "\<exists>sl. (sl = ''/'' \<or> sl = ''//'') \<and> normpath X = sl @ join_on sep (norm_comps X)"
proof -
  from assms have ne: "X \<noteq> []" by (auto simp: startswith_def sep_def)
  let ?n = "if startswith X (sep @ sep) \<and> \<not> startswith X (sep @ sep @ sep) then 2 else (1::nat)"
  let ?sl = "concat (replicate ?n sep)"
  have sl: "?sl = ''/'' \<or> ?sl = ''//''" by (simp add: sep_def numeral_2_eq_2)
  then have "?sl @ join_on sep (norm_comps X) \<noteq> []" by auto
  then have "normpath X = ?sl @ join_on sep (norm_comps X)"
    using assms ne by (simp add: normpath_def Let_def)
  with sl show ?thesis by blast
qed

lemma split_slashes:
  assumes "sl = ''/'' \<or> sl = ''//''" and "\<forall>x\<in>set cs. plain x"
  shows "\<exists>es. set es \<subseteq> {[]} \<and> split_on CHR ''/'' (sl @ join_on sep cs) = es @ cs"
proof (cases "cs = []")
  case True
  with assms(1) show ?thesis by (auto simp: Let_def)
next
  case False
  have "split_on CHR ''/'' (join_on sep cs) = cs"
    unfolding sep_def using False assms(2) by (intro split_on_join_on) (auto simp: plain_def)
  with assms(1) show ?thesis
    by (auto intro: exI [of _ "[[]]"] exI [of _ "[[], []]"])
qed

lemma foldl_norm_step_empties:
  "set es \<subseteq> {[]} \<Longrightarrow> foldl (norm_step r) acc es = acc"
  by (induction es arbitrary: acc) auto

lemma norm_comps_normpath:
  assumes "startswith X sep"
  shows "norm_comps (normpath X) = norm_comps X"
proof -
  from normpath_rooted [OF assms] obtain sl where sl: "sl = ''/'' \<or> sl = ''//''"
    and n: "normpath X = sl @ join_on sep (norm_comps X)" by blast
  have pl: "\<forall>x\<in>set (norm_comps X). plain x" by (rule norm_comps_plain [OF assms])
  from split_slashes [OF sl pl] obtain es where es: "set es \<subseteq> {[]}"
    and sp: "split_on CHR ''/'' (sl @ join_on sep (norm_comps X)) = es @ norm_comps X" by blast
  have r: "startswith (sl @ join_on sep (norm_comps X)) sep"
    using sl by (auto simp: startswith_def sep_def)
  show ?thesis
    unfolding n norm_comps_rooted [OF r] sp
    using es pl by (simp add: foldl_norm_step_empties foldl_norm_step_plain)
qed

lemma parts_normpath:
  assumes "startswith X sep"
  shows "parts (normpath X) = norm_comps X"
proof -
  from normpath_rooted [OF assms] obtain sl where sl: "sl = ''/'' \<or> sl = ''//''"
    and n: "normpath X = sl @ join_on sep (norm_comps X)" by blast
  have pl: "\<forall>x\<in>set (norm_comps X). plain x" by (rule norm_comps_plain [OF assms])
  from split_slashes [OF sl pl] obtain es where es: "set es \<subseteq> {[]}"
    and sp: "split_on CHR ''/'' (sl @ join_on sep (norm_comps X)) = es @ norm_comps X" by blast
  have 1: "filter (\<lambda>c. c \<noteq> [] \<and> c \<noteq> ''.'') es = []" using es by (auto simp: filter_empty_conv)
  have 2: "filter (\<lambda>c. c \<noteq> [] \<and> c \<noteq> ''.'') (norm_comps X) = norm_comps X"
    using pl by (auto simp: plain_def filter_id_conv)
  show ?thesis unfolding n parts_def sp using 1 2 by simp
qed

lemma parts_abspath: "parts (abspath (getcwd w) p) = resolve w p"
proof -
  have r: "startswith (absolute (getcwd w) p) sep" by (rule absolute_rooted [OF getcwd_rooted])
  have "abspath (getcwd w) p = normpath (absolute (getcwd w) p)"
    by (simp add: abspath_def absolute_def)
  then show ?thesis
    using parts_normpath [OF r] by (simp add: resolve_def abs_comps_absolute)
qed

lemma common_loop_prefix:
  "common_loop s1 s2 = Inr c \<Longrightarrow> prefix c s1 \<and> prefix c s2"
proof (induction s1 s2 arbitrary: c rule: common_loop.induct)
  case (1 s2)
  then show ?case by simp
next
  case (2 c cs)
  then show ?case by simp
next
  case (3 x xs y ys)
  then show ?case by (auto split: if_splits sum.splits)
qed

lemma parts_elems:
  "x \<in> set (parts p) \<Longrightarrow> x \<noteq> [] \<and> x \<noteq> ''.'' \<and> CHR ''/'' \<notin> set x"
  by (auto simp: parts_def dest: split_on_elems)

lemma parts_join:
  assumes "\<forall>x\<in>set c. x \<noteq> [] \<and> x \<noteq> ''.'' \<and> CHR ''/'' \<notin> set x"
      and "pre = [] \<or> pre = ''/''"
  shows "parts (pre @ join_on sep c) = c"
proof (cases "c = []")
  case True
  with assms(2) show ?thesis by (auto simp: parts_def)
next
  case False
  have sp: "split_on CHR ''/'' (join_on sep c) = c"
    unfolding sep_def using False assms(1) by (intro split_on_join_on) auto
  have f: "filter (\<lambda>c. c \<noteq> [] \<and> c \<noteq> ''.'') c = c"
    using assms(1) by (auto simp: filter_id_conv)
  from assms(2) show ?thesis
  proof
    assume "pre = []"
    with sp f show ?thesis by (simp add: parts_def)
  next
    assume "pre = ''/''"
    with sp f show ?thesis by (simp add: parts_def)
  qed
qed

lemma commonpath_prefix:
  assumes "commonpath a b = Inr b"
  shows "prefix (parts b) (parts a)"
proof -
  let ?s1 = "min (parts a) (parts b)" and ?s2 = "max (parts a) (parts b)"
  let ?pre = "if startswith a sep then sep else []"
  from assms have sw: "startswith a sep = startswith b sep"
    by (simp add: commonpath_def split: if_splits)
  with assms have "(case common_loop ?s1 ?s2 of Inl e \<Rightarrow> Inl e
      | Inr common \<Rightarrow> Inr (?pre @ join_on sep common)) = Inr b"
    by (simp add: commonpath_def Let_def)
  then obtain c where cl: "common_loop ?s1 ?s2 = Inr c"
    and b: "?pre @ join_on sep c = b"
    by (cases "common_loop ?s1 ?s2") simp_all
  from common_loop_prefix [OF cl] have p: "prefix c ?s1" "prefix c ?s2" by simp_all
  have pa: "prefix c (parts a)"
  proof (cases "parts a \<le> parts b")
    case True
    with p(1) show ?thesis by (simp add: min_def)
  next
    case False
    with p(2) show ?thesis by (simp add: max_def)
  qed
  have el: "\<forall>x\<in>set c. x \<noteq> [] \<and> x \<noteq> ''.'' \<and> CHR ''/'' \<notin> set x"
  proof
    fix x assume "x \<in> set c"
    with pa have "x \<in> set (parts a)" by (auto simp: prefix_def)
    then show "x \<noteq> [] \<and> x \<noteq> ''.'' \<and> CHR ''/'' \<notin> set x" by (rule parts_elems)
  qed
  have pre: "?pre = [] \<or> ?pre = ''/''" by (simp add: sep_def)
  have "parts (?pre @ join_on sep c) = c" by (rule parts_join [OF el pre])
  then have "parts b = c" by (simp only: b)
  with pa show ?thesis by simp
qed

lemma is_subdir_prefix:
  assumes "is_subdir (getcwd w) a b = Inr True"
  shows "prefix (resolve w b) (resolve w a)"
proof -
  from assms have "commonpath (abspath (getcwd w) a) (abspath (getcwd w) b) =
      Inr (abspath (getcwd w) b)"
    by (auto simp: is_subdir_def Let_def split: sum.splits)
  from commonpath_prefix [OF this] show ?thesis by (simp add: parts_abspath)
qed

text \<open>Where \<open>ZipFile.extract\<close> puts a member.\<close>

lemma sanitize_plain:
  "\<exists>cs. (\<forall>c\<in>set cs. plain c) \<and> sanitize n = join_on sep cs"
proof -
  let ?cs = "filter (\<lambda>x. x \<noteq> [] \<and> x \<noteq> ''.'' \<and> x \<noteq> ''..'') (split_on CHR ''/'' n)"
  have "\<forall>c\<in>set ?cs. plain c" by (auto simp: plain_def dest: split_on_elems)
  moreover have "sanitize n = join_on sep ?cs" by (simp add: sanitize_def)
  ultimately show ?thesis by blast
qed

lemma join_on_not_rooted:
  assumes "\<forall>c\<in>set cs. plain c"
  shows "\<not> startswith (join_on sep cs) sep"
proof (cases cs)
  case Nil
  then show ?thesis by (simp add: startswith_def sep_def)
next
  case (Cons c cs')
  with assms have "plain c" by simp
  then obtain x xs where "c = x # xs" and "x \<noteq> CHR ''/''"
    by (cases c) (auto simp: plain_def)
  with Cons show ?thesis by (cases cs') (auto simp: startswith_def sep_def)
qed

lemma norm_comps_below:
  assumes r: "startswith X sep" and pl: "\<forall>c\<in>set cs. plain c"
  shows "norm_comps (path_join X (join_on sep cs)) = norm_comps X @ cs"
proof -
  from r have ne: "X \<noteq> []" by (auto simp: startswith_def sep_def)
  have nr: "\<not> startswith (join_on sep cs) sep" by (rule join_on_not_rooted [OF pl])
  have sj: "cs \<noteq> [] \<Longrightarrow> split_on CHR ''/'' (join_on sep cs) = cs"
    unfolding sep_def using pl by (intro split_on_join_on) (auto simp: plain_def)
  show ?thesis
  proof (cases "endswith X sep")
    case True
    then obtain X' where X': "X = X' @ ''/''" by (auto simp: endswith_iff sep_def)
    have pj: "path_join X (join_on sep cs) = X' @ CHR ''/'' # join_on sep cs"
      using nr True X' by (simp add: path_join_plain)
    have nX: "norm_comps X = foldl (norm_step True) [] (split_on CHR ''/'' X')"
      using r unfolding X' by (rule norm_comps_trailing_sep)
    have rr: "startswith (X' @ CHR ''/'' # join_on sep cs) sep"
      using rooted_append [OF r, of "join_on sep cs"] X' by simp
    show ?thesis
    proof (cases "cs = []")
      case True
      with pj X' show ?thesis by simp
    next
      case False
      have "split_on CHR ''/'' (X' @ CHR ''/'' # join_on sep cs) = split_on CHR ''/'' X' @ cs"
        using sj [OF False] by (simp add: split_on_append_sep)
      then show ?thesis
        unfolding pj norm_comps_rooted [OF rr] nX
        using pl by (simp add: foldl_norm_step_plain)
    qed
  next
    case False
    have pj: "path_join X (join_on sep cs) = X @ CHR ''/'' # join_on sep cs"
      using nr False ne by (simp add: path_join_plain)
    have rr: "startswith (X @ CHR ''/'' # join_on sep cs) sep"
      by (rule rooted_append [OF r])
    have sp: "split_on CHR ''/'' (X @ CHR ''/'' # join_on sep cs) =
              split_on CHR ''/'' X @ (if cs = [] then [[]] else cs)"
      using sj by (simp add: split_on_append_sep)
    show ?thesis
      unfolding pj norm_comps_rooted [OF rr] norm_comps_rooted [OF r] sp
      using pl by (simp add: foldl_norm_step_plain)
  qed
qed

lemma tempd_rooted: "startswith (tempd_of w) sep"
  by (simp add: tempd_of_def startswith_def sep_def)

lemma resolve_rooted: "startswith X sep \<Longrightarrow> resolve w X = norm_comps X"
  by (simp add: resolve_def abs_comps_def)

lemma normpath_is_rooted: "startswith X sep \<Longrightarrow> startswith (normpath X) sep"
  using normpath_rooted [of X] by (auto simp: startswith_def sep_def)

lemma extract_target:
  "\<exists>cs. resolve w (normpath (path_join (tempd_of w) (sanitize n))) = resolve w (tempd_of w) @ cs"
proof -
  from sanitize_plain [of n] obtain cs where pl: "\<forall>c\<in>set cs. plain c"
    and s: "sanitize n = join_on sep cs" by blast
  let ?Y = "path_join (tempd_of w) (join_on sep cs)"
  have rY: "startswith ?Y sep" by (rule path_join_rooted [OF tempd_rooted])
  have "resolve w (normpath ?Y) = norm_comps (normpath ?Y)"
    by (rule resolve_rooted [OF normpath_is_rooted [OF rY]])
  also have "\<dots> = norm_comps ?Y" by (rule norm_comps_normpath [OF rY])
  also have "\<dots> = norm_comps (tempd_of w) @ cs" by (rule norm_comps_below [OF tempd_rooted pl])
  also have "\<dots> = resolve w (tempd_of w) @ cs" by (simp add: resolve_rooted [OF tempd_rooted])
  finally show ?thesis unfolding s by blast
qed

section \<open>The extraction of the overrides\<close>

lemma below_refl [simp]: "below kt f f"
  by (simp add: below_def)

lemma below_trans: "below kt f0 f1 \<Longrightarrow> below kt f1 f2 \<Longrightarrow> below kt f0 f2"
  by (simp add: below_def)

lemma below_upd: "prefix kt k \<Longrightarrow> below kt f0 f \<Longrightarrow> below kt f0 (f(k := v))"
  by (auto simp: below_def)

lemma ensure_dir_below:
  assumes "ensure_dir f kb = Inr f'" and "f kt = Some Dir" and "prefix kt kb"
  shows "below kt f f' \<and> f' kt = Some Dir"
  using assms
proof (induction f kb arbitrary: f' rule: ensure_dir.induct)
  case (1 f k)
  show ?case
  proof (cases "f k")
    case (Some n)
    with "1.prems" show ?thesis
      by (cases n) (simp_all add: ensure_dir.simps [of f k])
  next
    case None
    with "1.prems"(1) have ne: "k \<noteq> []"
      by (auto simp: ensure_dir.simps [of f k] split: if_splits)
    from None ne "1.prems"(1) obtain f'' where rec: "ensure_dir f (butlast k) = Inr f''"
      and f': "f' = f''(k \<mapsto> Dir)"
      by (auto simp: ensure_dir.simps [of f k] split: sum.splits)
    from None "1.prems"(2) have "k \<noteq> kt" by auto
    with "1.prems"(3) have sp: "strict_prefix kt k" by (simp add: strict_prefix_def)
    then have pb: "prefix kt (butlast k)"
      using ne by (metis append_butlast_last_id prefix_snoc strict_prefix_def)
    from "1.IH" [OF None ne rec "1.prems"(2) pb]
    have b: "below kt f f''" and d: "f'' kt = Some Dir" by simp_all
    from below_upd [OF "1.prems"(3) b] have "below kt f f'" by (simp add: f')
    moreover from d \<open>k \<noteq> kt\<close> have "f' kt = Some Dir" by (simp add: f')
    ultimately show ?thesis by simp
  qed
qed

lemma ensure_dir_parent:
  assumes "ensure_dir f (butlast (kt @ cs)) = Inr f'"
      and "f kt = Some Dir" and "f (butlast kt) = Some Dir"
  shows "below kt f f' \<and> f' kt = Some Dir"
proof (cases "cs = []")
  case True
  with assms show ?thesis by (simp add: ensure_dir.simps [of f "butlast kt"])
next
  case False
  then have "prefix kt (butlast (kt @ cs))" by (simp add: butlast_append)
  from ensure_dir_below [OF assms(1,2) this] show ?thesis .
qed

lemma staged_resolve: "staged w0 w1 \<Longrightarrow> resolve w1 p = resolve w0 p"
  by (simp add: staged_def resolve_def getcwd_def)

lemma staged_tempd: "staged w0 w1 \<Longrightarrow> tempd_of w1 = tempd_of w0"
  by (simp add: staged_def tempd_of_def)

lemma staged_put_fs:
  assumes "staged w0 w1" and "below (resolve w0 (tempd_of w0)) (fs w1) f"
      and "f (resolve w0 (tempd_of w0)) = Some Dir"
  shows "staged w0 (put_fs ks f w1)"
proof -
  let ?kt = "resolve w0 (tempd_of w0)"
  from assms(1) have b1: "below ?kt (fs w0) (fs w1)" by (simp add: staged_def)
  from below_trans [OF b1 assms(2)] have b: "below ?kt (fs w0) f" .
  from assms(1) obtain hs where hs: "hist w1 = hist w0 @ hs"
    "\<forall>s\<in>set hs. below ?kt (fs w0) s" by (auto simp: staged_def)
  have h: "hist (put_fs ks f w1) = hist w0 @ (hs @ [f])" using hs by (simp add: put_fs_def)
  have hb: "\<forall>s\<in>set (hs @ [f]). below ?kt (fs w0) s" using hs b by simp
  have par: "f (butlast ?kt) = Some Dir"
  proof (cases "?kt = []")
    case True
    with assms(3) show ?thesis by simp
  next
    case False
    then have "\<not> prefix ?kt (butlast ?kt)"
      by (metis append_butlast_last_id prefix_order.eq_iff prefix_snoc
          append_self_conv not_Cons_self2)
    with assms(2) have "f (butlast ?kt) = fs w1 (butlast ?kt)" by (simp add: below_def)
    with assms(1) show ?thesis by (simp add: staged_def)
  qed
  from assms(1) have t: "cwd_tail w1 = cwd_tail w0" "tmp_tail w1 = tmp_tail w0"
    "json_loads w1 = json_loads w0" by (simp_all add: staged_def)
  show ?thesis
    unfolding staged_def
    using assms(3) par b t h hb by (auto simp: put_fs_def)
qed

lemma zip_extract_staged:
  assumes st: "staged w0 w1"
      and ex: "zip_extract zf n (tempd_of w0) w1 = (r, w2)"
  shows "staged w0 w2"
proof (cases "zip_lookup zf n")
  case None
  with ex st show ?thesis by (simp add: zip_extract_def)
next
  case (Some d)
  let ?kt = "resolve w0 (tempd_of w0)"
  from extract_target [of w0 n] obtain cs where
    k0: "resolve w0 (normpath (path_join (tempd_of w0) (sanitize n))) = ?kt @ cs" by blast
  have k: "resolve w1 (normpath (path_join (tempd_of w0) (sanitize n))) = ?kt @ cs"
    using k0 staged_resolve [OF st] by simp
  from st have d1: "fs w1 ?kt = Some Dir" and p1: "fs w1 (butlast ?kt) = Some Dir"
    by (simp_all add: staged_def)
  show ?thesis
  proof (cases "ensure_dir (fs w1) (butlast (?kt @ cs))")
    case (Inl e)
    with ex Some k st show ?thesis by (simp add: zip_extract_def Let_def)
  next
    case (Inr f)
    from ensure_dir_parent [OF Inr d1 p1] have bf: "below ?kt (fs w1) f"
      and df: "f ?kt = Some Dir" by simp_all
    have s1: "staged w0 (put_fs ks f w1)" for ks by (rule staged_put_fs [OF st bf df])
    have pk: "prefix ?kt (?kt @ cs)" by simp
    have s2: "staged w0 (put_fs ks (f(?kt @ cs \<mapsto> v)) w1)"
      if "?kt @ cs = ?kt \<longrightarrow> v = Dir" for v ks
    proof (rule staged_put_fs [OF st])
      show "below ?kt (fs w1) (f(?kt @ cs \<mapsto> v))" by (rule below_upd [OF pk bf])
      show "(f(?kt @ cs \<mapsto> v)) ?kt = Some Dir" using that df by auto
    qed
    show ?thesis
    proof (cases "endswith n sep")
      case True
      with ex Some k Inr have
        "\<exists>ks. w2 = put_fs ks f w1 \<or> w2 = put_fs ks (f(?kt @ cs \<mapsto> Dir)) w1"
        by (auto simp: zip_extract_def Let_def split: if_splits)
      with s1 s2 [of Dir] show ?thesis by auto
    next
      case False
      with ex Some k Inr have
        "(\<exists>ks. w2 = put_fs ks f w1) \<or>
         (?kt @ cs \<noteq> [] \<and> f (?kt @ cs) \<noteq> Some Dir \<and>
          (\<exists>ks. w2 = put_fs ks (f(?kt @ cs \<mapsto> File (Bytes d))) w1))"
        by (auto simp: zip_extract_def Let_def split: if_splits)
      then show ?thesis
      proof
        assume "\<exists>ks. w2 = put_fs ks f w1"
        with s1 show ?thesis by auto
      next
        assume h: "?kt @ cs \<noteq> [] \<and> f (?kt @ cs) \<noteq> Some Dir \<and>
            (\<exists>ks. w2 = put_fs ks (f(?kt @ cs \<mapsto> File (Bytes d))) w1)"
        with df have "?kt @ cs \<noteq> ?kt" by auto
        then have "\<And>ks. staged w0 (put_fs ks (f(?kt @ cs \<mapsto> File (Bytes d))) w1)"
          by (intro s2) simp
        with h show ?thesis by auto
      qed
    qed
  qed
qed

lemma extract_loop_staged:
  assumes "staged w0 w1"
      and "for_each (\<lambda>n. if startswith n or_folder then zip_extract zf n (tempd_of w0) else ret ())
             ns w1 = (r, w2)"
  shows "staged w0 w2"
  using assms
proof (induction ns arbitrary: w1)
  case Nil
  then show ?case by simp
next
  case (Cons n ns)
  obtain r1 wa where step:
    "(if startswith n or_folder then zip_extract zf n (tempd_of w0) else ret ()) w1 = (r1, wa)"
    by (cases "(if startswith n or_folder then zip_extract zf n (tempd_of w0) else ret ()) w1")
  have sa: "staged w0 wa"
  proof (cases "startswith n or_folder")
    case True
    with step have "zip_extract zf n (tempd_of w0) w1 = (r1, wa)" by simp
    from zip_extract_staged [OF Cons.prems(1) this] show ?thesis .
  next
    case False
    with step Cons.prems(1) show ?thesis by (simp add: ret_def)
  qed
  show ?case
  proof (cases r1)
    case (Inl e)
    with step Cons.prems(2) sa show ?thesis by simp
  next
    case (Inr u)
    with step Cons.prems(2) have "for_each (\<lambda>n. if startswith n or_folder
        then zip_extract zf n (tempd_of w0) else ret ()) ns wa = (r, w2)" by simp
    from Cons.IH [OF sa this] show ?thesis .
  qed
qed

lemma mkdtemp_staged:
  assumes "mkdtemp w = (Inr t, w1)"
  shows "t = tempd_of w \<and> staged w w1"
proof -
  let ?kt = "resolve w (tempd_of w)"
  from assms have t: "t = tempd_of w" and par: "fs w (butlast ?kt) = Some Dir"
    and ne: "?kt \<noteq> []" and w1: "w1 = put_fs [?kt] ((fs w)(?kt \<mapsto> Dir)) w"
    by (auto simp: mkdtemp_def Let_def split: if_splits)
  have b: "below ?kt (fs w) ((fs w)(?kt \<mapsto> Dir))" by (rule below_upd) simp_all
  have nb: "butlast ?kt \<noteq> ?kt" using ne by (metis append_butlast_last_id append_self_conv not_Cons_self2)
  have "staged w w1"
    unfolding staged_def w1 using par b nb by (auto simp: put_fs_def)
  with t show ?thesis by simp
qed

lemma rmtree_staged:
  assumes "staged w0 w2"
  shows "below (resolve w0 (tempd_of w0)) (fs w0) (fs (rmtree (tempd_of w0) w2)) \<and>
         (\<exists>hs. hist (rmtree (tempd_of w0) w2) = hist w0 @ hs \<and>
               (\<forall>s\<in>set hs. below (resolve w0 (tempd_of w0)) (fs w0) s))"
proof -
  let ?kt = "resolve w0 (tempd_of w0)"
  let ?f = "\<lambda>x. if prefix ?kt x then None else fs w2 x"
  from assms have b2: "below ?kt (fs w0) (fs w2)" by (simp add: staged_def)
  then have b: "below ?kt (fs w0) ?f" by (simp add: below_def)
  from assms obtain hs where hs: "hist w2 = hist w0 @ hs" "\<forall>s\<in>set hs. below ?kt (fs w0) s"
    by (auto simp: staged_def)
  have r: "rmtree (tempd_of w0) w2 = set_fs ?f w2"
    using staged_resolve [OF assms] by (simp add: rmtree_def)
  have "hist (set_fs ?f w2) = hist w0 @ (hs @ [?f])" using hs by (simp add: set_fs_def put_fs_def)
  moreover have "\<forall>s\<in>set (hs @ [?f]). below ?kt (fs w0) s" using hs b by simp
  ultimately have "\<exists>hs. hist (set_fs ?f w2) = hist w0 @ hs \<and> (\<forall>s\<in>set hs. below ?kt (fs w0) s)"
    by blast
  with b r show ?thesis by (simp add: set_fs_def put_fs_def)
qed

lemma ensure_dir_exn:
  "ensure_dir f k = Inl e \<Longrightarrow> e = NotADirectoryError \<or> e = FileNotFoundError"
proof (induction f k rule: ensure_dir.induct)
  case (1 f k)
  show ?case
  proof (cases "f k")
    case (Some n)
    with "1.prems" show ?thesis
      by (cases n) (simp_all add: ensure_dir.simps [of f k])
  next
    case None
    show ?thesis
    proof (cases "k = []")
      case True
      with None "1.prems" show ?thesis by (simp add: ensure_dir.simps [of f "[]"])
    next
      case False
      with None "1.prems" have "ensure_dir f (butlast k) = Inl e"
        by (auto simp: ensure_dir.simps [of f k] split: sum.splits)
      from "1.IH" [OF None False this] show ?thesis .
    qed
  qed
qed

lemma makedirs_at_exn: "makedirs_at f k = Inl e \<Longrightarrow> e \<noteq> AssertionError"
  using ensure_dir_exn [of f k e] by (auto simp: makedirs_at_def split: if_splits)

lemma copy2_exn: "copy2 ks kd w = (Inl e, w1) \<Longrightarrow> e \<noteq> AssertionError"
  by (auto simp: copy2_def copyfile_def split: if_splits option.splits node.splits)

lemma copy_entries_exn:
  assumes "\<And>ks kd w e w1. nested ks kd w = (Inl e, w1) \<Longrightarrow> e \<noteq> AssertionError"
      and "copy_entries nested ks kd entries errors w = (Inl e, w1)"
  shows "e \<noteq> AssertionError"
  using assms(2)
proof (induction entries arbitrary: errors w)
  case Nil
  then show ?case by (auto split: if_splits)
next
  case (Cons a entries)
  obtain name is_dir where a: "a = (name, is_dir)" by (cases a)
  let ?step = "if is_dir then nested (ks @ [name]) (kd @ [name]) w
               else copy2 (ks @ [name]) (kd @ [name]) w"
  obtain r w2 where step: "?step = (r, w2)" by (cases ?step)
  show ?case
  proof (cases r)
    case (Inr u)
    with Cons.prems a step have "copy_entries nested ks kd entries errors w2 = (Inl e, w1)"
      by simp
    then show ?thesis by (rule Cons.IH)
  next
    case (Inl x)
    have x: "x \<noteq> AssertionError"
      using step Inl assms(1) copy2_exn by (auto split: if_splits)
    show ?thesis
    proof (cases "shutil_error x \<or> os_error x")
      case True
      with Cons.prems a step Inl
      have "copy_entries nested ks kd entries True w2 = (Inl e, w1)" by simp
      then show ?thesis by (rule Cons.IH)
    next
      case False
      with Cons.prems a step Inl have "e = x" by simp
      with x show ?thesis by simp
    qed
  qed
qed

lemma copytree_at_exn: "copytree_at depth ks kd w = (Inl e, w1) \<Longrightarrow> e \<noteq> AssertionError"
proof (induction depth arbitrary: ks kd w e w1)
  case 0
  then show ?case by auto
next
  case (Suc depth)
  show ?case
  proof (cases "fs w ks")
    case None
    with Suc.prems show ?thesis by auto
  next
    case (Some n)
    show ?thesis
    proof (cases n)
      case (File c)
      with Some Suc.prems show ?thesis by auto
    next
      case Dir
      show ?thesis
      proof (cases "makedirs_at (fs w) kd")
        case (Inl x)
        with Dir Some Suc.prems have "e = x" by simp
        with makedirs_at_exn [OF Inl] show ?thesis by simp
      next
        case (Inr f)
        with Dir Some Suc.prems
        have "copy_entries (copytree_at depth) ks kd (scandir w ks) False
                (put_fs (prefixes kd) f w) = (Inl e, w1)"
          by simp
        from copy_entries_exn [OF Suc.IH this] show ?thesis .
      qed
    qed
  qed
qed

lemma copytree_exn: "copytree src dst w = (Inl e, w1) \<Longrightarrow> e \<noteq> AssertionError"
  using copytree_at_exn [of "rec_limit w" "resolve w src" "resolve w dst" w e w1]
  by (auto simp: copytree_def split: if_splits)

lemma get_manifest_spec:
  assumes "get_manifest zf w = (x, w1)"
  shows "w1 = w \<and> (\<forall>mf. x = Inr mf \<longrightarrow>
           (\<exists>txt. zip_lookup zf ''manifest.json'' = Some txt \<and> json_loads w txt = Some mf))"
  using assms by (auto simp: get_manifest_def split: option.splits)

lemma lift_spec: "lift x w = (y, w1) \<Longrightarrow> w1 = w \<and> y = x"
  by (auto simp: lift_def)

lemma staged_getcwd: "staged w0 w1 \<Longrightarrow> getcwd w1 = getcwd w0"
  by (simp add: staged_def getcwd_def)

text \<open>
  Claim C1, as amended. When \<open>extract_overrides\<close> returns normally, the assertion has
  held: the staging subdirectory, the staging root joined with the manifest's overrides
  path, is the staging root itself or a descendant of it. When the assertion does not
  hold, whatever the reason, the run ends in an exception and nothing has been copied:
  the final file system and every state on the way differ from the initial one below the
  staging root only. The same is true whenever the run ends in \<open>AssertionError\<close>.
  (An exception of \<open>copytree\<close> itself, after the assertion has held, may leave files
  in the destination.)
\<close>

theorem overrides_stay_in_staging:
  assumes run: "extract_overrides zf output_dir w = (r, w')"
  shows "(r = Inr () \<longrightarrow>
            (\<exists>txt mf or_folder.
               zip_lookup zf ''manifest.json'' = Some txt \<and> json_loads w txt = Some mf \<and>
               subscr mf ''overrides'' = Inr (JStr or_folder) \<and>
               is_subdir (getcwd w) (path_join (tempd_of w) or_folder) (tempd_of w) = Inr True \<and>
               prefix (resolve w (tempd_of w)) (resolve w (path_join (tempd_of w) or_folder))))
       \<and> (\<not> (\<exists>txt mf or_folder.
               zip_lookup zf ''manifest.json'' = Some txt \<and> json_loads w txt = Some mf \<and>
               subscr mf ''overrides'' = Inr (JStr or_folder) \<and>
               is_subdir (getcwd w) (path_join (tempd_of w) or_folder) (tempd_of w) = Inr True)
            \<longrightarrow>
            (\<exists>e. r = Inl e) \<and>
            below (resolve w (tempd_of w)) (fs w) (fs w') \<and>
            (\<exists>hs. hist w' = hist w @ hs \<and>
                  (\<forall>s\<in>set hs. below (resolve w (tempd_of w)) (fs w) s)))
       \<and> (r = Inl AssertionError \<longrightarrow>
            below (resolve w (tempd_of w)) (fs w) (fs w') \<and>
            (\<exists>hs. hist w' = hist w @ hs \<and>
                  (\<forall>s\<in>set hs. below (resolve w (tempd_of w)) (fs w) s)))"
proof -
  let ?kt = "resolve w (tempd_of w)"
  let ?Held = "\<exists>txt mf or_folder.
               zip_lookup zf ''manifest.json'' = Some txt \<and> json_loads w txt = Some mf \<and>
               subscr mf ''overrides'' = Inr (JStr or_folder) \<and>
               is_subdir (getcwd w) (path_join (tempd_of w) or_folder) (tempd_of w) = Inr True"
  let ?Good = "\<exists>txt mf or_folder.
               zip_lookup zf ''manifest.json'' = Some txt \<and> json_loads w txt = Some mf \<and>
               subscr mf ''overrides'' = Inr (JStr or_folder) \<and>
               is_subdir (getcwd w) (path_join (tempd_of w) or_folder) (tempd_of w) = Inr True \<and>
               prefix ?kt (resolve w (path_join (tempd_of w) or_folder))"
  let ?Kept = "\<lambda>w'. below ?kt (fs w) (fs w') \<and>
            (\<exists>hs. hist w' = hist w @ hs \<and> (\<forall>s\<in>set hs. below ?kt (fs w) s))"
  have gh: "?Good \<Longrightarrow> ?Held" by blast
  \<comment> \<open>either the assertion held and \<open>copytree\<close> ran, or the run stopped before it\<close>
  have alt: "(?Good \<and> r \<noteq> Inl AssertionError) \<or> ((\<exists>e. r = Inl e) \<and> ?Kept w')"
    using run unfolding extract_overrides_def
  proof (cases rule: andthen_cases)
    case (fail e)
    then have "w' = w" by (auto simp: mkdtemp_def Let_def split: if_splits)
    moreover have "hist w = hist w @ [] \<and> (\<forall>s\<in>set []. below ?kt (fs w) s)" by simp
    ultimately have "?Kept w'" by (metis below_refl)
    with fail show ?thesis by simp
  next
    case (ok tempd w1)
    from mkdtemp_staged [OF ok(1)] have tempd: "tempd = tempd_of w" and st1: "staged w w1"
      by simp_all
    let ?body = "andthen (get_manifest zf) (\<lambda>mf.
        andthen (lift (subscr mf ''overrides'')) (\<lambda>ov.
        andthen (lift (as_str ov)) (\<lambda>or_folder.
        andthen (for_each (\<lambda>n. if startswith n or_folder
                                then zip_extract zf n (tempd_of w) else ret ())
                   (namelist zf)) (\<lambda>u.
        (\<lambda>w3. let output_override_dir = path_join (tempd_of w) or_folder
             in andthen (lift (is_subdir (getcwd w3) output_override_dir (tempd_of w))) (\<lambda>ok.
                if \<not> ok then raise AssertionError
                else copytree output_override_dir output_dir) w3)))))"
    obtain w2 where body: "?body w1 = (r, w2)" and w': "w' = rmtree (tempd_of w) w2"
      using ok(2) unfolding tempd try_finally_def by (cases "?body w1") auto
    have main: "(?Good \<and> r \<noteq> Inl AssertionError) \<or> ((\<exists>e. r = Inl e) \<and> staged w w2)"
      using body
    proof (cases rule: andthen_cases)
      case (fail e)
      from get_manifest_spec [OF fail(1)] st1 fail(2) show ?thesis by simp
    next
      case (ok mf wa)
      from get_manifest_spec [OF ok(1)] obtain doc where wa: "wa = w1"
        and doc: "zip_lookup zf ''manifest.json'' = Some doc" "json_loads w1 doc = Some mf"
        by auto
      from st1 doc have doc': "json_loads w doc = Some mf" by (simp add: staged_def)
      from ok(2) show ?thesis
      proof (cases rule: andthen_cases)
        case (fail e)
        from lift_spec [OF fail(1)] wa st1 fail(2) show ?thesis by simp
      next
        case (ok ov wb)
        from lift_spec [OF ok(1)] have wb: "wb = w1" and ov: "subscr mf ''overrides'' = Inr ov"
          using wa by simp_all
        from ok(2) show ?thesis
        proof (cases rule: andthen_cases)
          case (fail e)
          from lift_spec [OF fail(1)] wb st1 fail(2) show ?thesis by simp
        next
          case (ok or_folder wc)
          from lift_spec [OF ok(1)] have wc: "wc = w1" and "as_str ov = Inr or_folder"
            using wb by simp_all
          then have ov': "ov = JStr or_folder" by (auto simp: as_str_def split: json.splits)
          from ok(2) show ?thesis
          proof (cases rule: andthen_cases)
            case (fail e)
            from extract_loop_staged [OF st1 fail(1) [unfolded wc]] fail(2)
            show ?thesis by simp
          next
            case (ok u w3)
            from extract_loop_staged [OF st1 ok(1) [unfolded wc]] have st3: "staged w w3" .
            let ?dir = "path_join (tempd_of w) or_folder"
            from ok(2) have asrt:
              "andthen (lift (is_subdir (getcwd w) ?dir (tempd_of w))) (\<lambda>ok.
                if \<not> ok then raise AssertionError else copytree ?dir output_dir) w3 = (r, w2)"
              by (simp add: Let_def staged_getcwd [OF st3])
            from asrt show ?thesis
            proof (cases rule: andthen_cases)
              case (fail e)
              from lift_spec [OF fail(1)] st3 fail(2) show ?thesis by simp
            next
              case (ok b wd)
              from lift_spec [OF ok(1)] have wd: "wd = w3"
                and sub: "is_subdir (getcwd w) ?dir (tempd_of w) = Inr b" by simp_all
              show ?thesis
              proof (cases b)
                case False
                with ok(2) wd have "r = Inl AssertionError" and "w2 = w3"
                  by (auto simp: raise_def)
                with st3 show ?thesis by simp
              next
                case True
                with ok(2) wd have ct: "copytree ?dir output_dir w3 = (r, w2)" by simp
                from sub True have "prefix ?kt (resolve w ?dir)"
                  by (intro is_subdir_prefix) simp
                with doc(1) doc' ov ov' sub True have good: ?Good by auto
                have "r \<noteq> Inl AssertionError" using ct copytree_exn by blast
                with good show ?thesis by blast
              qed
            qed
          qed
        qed
      qed
    qed
    from main show ?thesis
    proof
      assume "?Good \<and> r \<noteq> Inl AssertionError"
      then show ?thesis by blast
    next
      assume h: "(\<exists>e. r = Inl e) \<and> staged w w2"
      then have "staged w w2" by simp
      from rmtree_staged [OF this] w' have "?Kept w'" by simp
      with h show ?thesis by blast
    qed
  qed
  from alt show ?thesis
  proof
    assume g: "?Good \<and> r \<noteq> Inl AssertionError"
    then have "?Held" by blast
    with g show ?thesis by blast
  next
    assume k: "(\<exists>e. r = Inl e) \<and> ?Kept w'"
    then have "r \<noteq> Inr ()" by auto
    with k show ?thesis by blast
  qed
qed

section \<open>The example runs\<close>

lemmas path_defs = resolve_def getcwd_def abs_comps_def norm_comps_def norm_step_def
  path_join_def startswith_def endswith_def sep_def basename_def drop_last_def

lemmas demo_defs = demo_world_def demo_fs_def demo_index_def demo_net_def demo_loads_def ok_response_def
  pack_text_def pack_manifest_def pack_record_def other_text_def other_manifest_def
  noloader_text_def noloader_manifest_def info_text_def info_json_def
  loader_text_def loader_json_def flat_text_def flat_manifest_def flat_zip_def
  up_text_def up_manifest_def up_zip_def

theorem last_primary_wins_witness:
  "select_loader None
     ([JObj [(''id'', JStr ''forge-1''), (''primary'', JBool True)]] @
      JObj [(''id'', JStr ''forge 2''), (''primary'', JBool True)] #
      [JObj [(''id'', JStr ''forge-3''), (''primary'', JBool False)]]) = Inr (Some (JStr ''forge 2''))
   \<and> loader_phase
         (JObj [(''minecraft'', JObj [(''modLoaders'', JArr
            ([JObj [(''id'', JStr ''forge-1''), (''primary'', JBool True)]] @
             JObj [(''id'', JStr ''forge 2''), (''primary'', JBool True)] #
             [JObj [(''id'', JStr ''forge-3''), (''primary'', JBool False)]]))])])
         ''pack'' demo_world =
       andthen (get_modloader_info (JStr ''forge 2'')) (install_loader (JStr ''forge 2'') ''pack'')
         (demo_world\<lparr>out := out demo_world @ [RetrievingForge]\<rparr>)
   \<and> reqs (snd (get_modloader_info (JStr ''forge 2'') demo_world)) =
       reqs demo_world @ [modloader_request ''forge%202'']"
  using last_primary_wins [of "[JObj [(''id'', JStr ''forge-1''), (''primary'', JBool True)]]"
      "Some (JStr ''forge-1'')"
      "JObj [(''id'', JStr ''forge 2''), (''primary'', JBool True)]" "JBool True" "JStr ''forge 2''"
      "[JObj [(''id'', JStr ''forge-3''), (''primary'', JBool False)]]"
      "JObj [(''minecraft'', JObj [(''modLoaders'', JArr
            ([JObj [(''id'', JStr ''forge-1''), (''primary'', JBool True)]] @
             JObj [(''id'', JStr ''forge 2''), (''primary'', JBool True)] #
             [JObj [(''id'', JStr ''forge-3''), (''primary'', JBool False)]]))])]"
      "JObj [(''modLoaders'', JArr
            ([JObj [(''id'', JStr ''forge-1''), (''primary'', JBool True)]] @
             JObj [(''id'', JStr ''forge 2''), (''primary'', JBool True)] #
             [JObj [(''id'', JStr ''forge-3''), (''primary'', JBool False)]]))]"
      "''forge%202''" "''pack''" demo_world demo_world]
  by (simp add: quote_def quote_char_def hex_digit_def)

theorem no_primary_is_unbound_witness:
  "loader_phase noloader_manifest ''noloader'' demo_world =
     (Inl UnboundLocalError, demo_world\<lparr>out := out demo_world @ [RetrievingForge]\<rparr>)"
  using no_primary_is_unbound [of "[JObj [(''id'', JStr ''forge-1''), (''primary'', JBool False)]]"
      noloader_manifest
      "JObj [(''version'', JStr ''1.12.2''),
              (''modLoaders'', JArr [JObj [(''id'', JStr ''forge-1''), (''primary'', JBool False)]])]"
      "''noloader''" demo_world]
  by (simp add: noloader_manifest_def)

text \<open>The whole run on \<open>noloader.zip\<close> ends the same way, and the one on \<open>bad.zip\<close> in
  the decoder's exception.\<close>

lemma main_without_primary_loader:
  "fst (main [''modpack_dl.py'', ''noloader.zip''] demo_world) = Inl UnboundLocalError"
  by code_simp

lemma main_without_primary_loader_output:
  "out (snd (main [''modpack_dl.py'', ''noloader.zip''] demo_world)) =
     [ModpackLine (JStr ''P'') (JStr ''1'') (JStr ''me''), CreatingModFolder,
      DownloadingMods 0, RetrievingForge]"
  by code_simp

lemma main_with_undecodable_manifest:
  "fst (main [''modpack_dl.py'', ''bad.zip''] demo_world) = Inl JSONDecodeError"
  by code_simp

theorem wrong_manifest_type_no_output_witness:
  "is_modpack_zip ''other.zip'' demo_world = (Inr False, demo_world)
   \<and> main [''modpack_dl.py'', ''other.zip''] demo_world =
       (Inr (), demo_world\<lparr>out := out demo_world @ [NotValid ''other.zip'']\<rparr>)"
  using wrong_manifest_type_no_output [of "''other.zip''" demo_world
      "[(''manifest.json'', other_text)]" other_text other_manifest "JStr ''resourcePack''"
      "''modpack_dl.py''" "[]"]
  by (simp add: path_defs demo_defs zip_lookup_def)

theorem undecodable_manifest_raises_witness:
  "is_modpack_zip ''bad.zip'' demo_world = (Inl JSONDecodeError, demo_world)"
  using undecodable_manifest_raises [of "''bad.zip''" demo_world
      "[(''manifest.json'', ''not json'')]" "''not json''"]
  by (simp add: path_defs demo_defs zip_lookup_def)

text \<open>The second run on \<open>pack.zip\<close>: the mod and the installer are there.\<close>

lemmas request_defs = info_request_def download_url_request_def modloader_request_def api_url_def
  str_int_def digits.simps

lemmas catalog_defs = catalog_lookup_def get_info_def get_download_url_def session_get_def
  raise_for_status_def response_json_def response_text_def

lemma demo_catalog_lookup:
  "catalog_lookup pack_record demo_world =
     (Inr (info_json, ''https://cdn/f/mod.jar''),
      demo_world\<lparr>reqs := [info_request ''12'', download_url_request ''12'' ''345'']\<rparr>)"
  by (simp add: catalog_defs prog_defs request_defs demo_defs Let_def)

text \<open>The first download of the optional mod of \<open>pack.zip\<close>, into a folder that does
  not hold it yet.\<close>

lemma first_download_lands:
  "fs (snd (download_manifest_file pack_record ''pack/minecraft'' False demo_world))
     [''home'', ''u'', ''pack'', ''minecraft'', ''mod.jar.disabled''] = Some (File (Bytes ''abcd''))"
  by code_simp

theorem destpath_is_last_segment_witness:
  "manifest_destpath ''https://cdn/f/mod.jar'' ''pack/minecraft'' (JBool True) =
     ''pack/minecraft/mod.jar''
   \<and> manifest_destpath ''https://cdn/f/mod.jar'' ''pack/minecraft'' (JBool False) =
     ''pack/minecraft/mod.jar.disabled''
   \<and> download_manifest_file pack_record ''pack/minecraft'' False demo_world =
       download_to_file (JStr ''https://cdn/f/mod.jar'') ''pack/minecraft/mod.jar.disabled'' False
         (demo_world\<lparr>reqs := [info_request ''12'', download_url_request ''12'' ''345''],
                      out := [Downloading (JStr ''Mod'')]\<rparr>)
   \<and> fs (snd (download_manifest_file pack_record ''pack/minecraft'' False demo_world))
        [''home'', ''u'', ''pack'', ''minecraft'', ''mod.jar.disabled''] = Some (File (Bytes ''abcd''))"
proof -
  let ?url = "''https://cdn/f/mod.jar''"
  let ?w1 = "demo_world\<lparr>reqs := [info_request ''12'', download_url_request ''12'' ''345'']\<rparr>"
  note t = destpath_is_last_segment [of ?url "''pack/minecraft''" "JBool False"]
  have seg: "last (split_on CHR ''/'' ?url) = ''mod.jar''" by (simp add: Let_def)
  have pj: "path_join ''pack/minecraft'' ''mod.jar'' = ''pack/minecraft/mod.jar''"
    by (simp add: path_join_def startswith_def endswith_def sep_def)
  from t have a: "manifest_destpath ?url ''pack/minecraft'' (JBool True) = ''pack/minecraft/mod.jar''"
    by (simp only: seg pj)
  from t have b: "manifest_destpath ?url ''pack/minecraft'' (JBool False) =
      ''pack/minecraft/mod.jar.disabled''"
    by (simp only: seg pj) simp
  have rq: "subscr pack_record ''required'' = Inr (JBool False)" by (simp add: pack_record_def)
  have nm: "subscr info_json ''name'' = Inr (JStr ''Mod'')" by (simp add: info_json_def)
  have ex: "\<not> os_path_exists ?w1 (manifest_destpath ?url ''pack/minecraft'' (JBool False))"
    by (simp add: b os_path_exists_def path_defs demo_defs)
  from t have "catalog_lookup pack_record demo_world = (Inr (info_json, ?url), ?w1) \<and>
         subscr pack_record ''required'' = Inr (JBool False) \<and>
         subscr info_json ''name'' = Inr (JStr ''Mod'') \<and>
         (False \<or> \<not> os_path_exists ?w1 (manifest_destpath ?url ''pack/minecraft'' (JBool False)))
         \<longrightarrow>
         download_manifest_file pack_record ''pack/minecraft'' False demo_world =
           download_to_file (JStr ?url)
             (path_join ''pack/minecraft'' (last (split_on CHR ''/'' ?url)) @
                (if truthy (JBool False) then [] else ''.disabled''))
             False (?w1\<lparr>out := out ?w1 @ [Downloading (JStr ''Mod'')]\<rparr>)"
    by blast
  with demo_catalog_lookup rq nm ex
  have c: "download_manifest_file pack_record ''pack/minecraft'' False demo_world =
       download_to_file (JStr ?url) ''pack/minecraft/mod.jar.disabled'' False
         (demo_world\<lparr>reqs := [info_request ''12'', download_url_request ''12'' ''345''],
                      out := [Downloading (JStr ''Mod'')]\<rparr>)"
    by (simp add: seg pj demo_world_def)
  from a b c first_download_lands show ?thesis by simp
qed

lemma demo_mod_exists:
  "os_path_exists demo_world
     (manifest_destpath ''https://cdn/f/mod.jar'' ''pack/minecraft/mods'' (JBool False))"
  by (simp add: os_path_exists_def manifest_destpath_def path_defs demo_defs Let_def)

lemma demo_installer_exists:
  "os_path_exists demo_world ''pack/forge-36.0.0-installer.jar''"
  by (simp add: os_path_exists_def path_defs demo_defs)

theorem catalog_requests_come_first_witness:
  "download_manifest_file pack_record ''pack/minecraft/mods'' False demo_world =
     (Inr (), demo_world\<lparr>reqs := [info_request ''12'', download_url_request ''12'' ''345''],
                          out := [Reused (JStr ''Mod'')]\<rparr>)
   \<and> (\<exists>p q rest.
         reqs (demo_world\<lparr>reqs := [info_request ''12'', download_url_request ''12'' ''345''],
                          out := [Reused (JStr ''Mod'')]\<rparr>) =
         reqs demo_world @ [info_request p, download_url_request p q] @ rest)"
proof -
  have run: "download_manifest_file pack_record ''pack/minecraft/mods'' False demo_world =
     (Inr (), demo_world\<lparr>reqs := [info_request ''12'', download_url_request ''12'' ''345''],
                          out := [Reused (JStr ''Mod'')]\<rparr>)"
  proof -
    have rq: "subscr pack_record ''required'' = Inr (JBool False)"
      by (simp add: pack_record_def)
    have nm: "subscr info_json ''name'' = Inr (JStr ''Mod'')"
      by (simp add: info_json_def)
    have o: "out demo_world = []" by (simp add: demo_world_def)
    show ?thesis
      using demo_mod_exists nm o
      by (simp add: download_manifest_file_unfold [OF demo_catalog_lookup rq] prog_defs)
  qed
  from catalog_requests_come_first [OF run]
  have "\<exists>p q rest.
         reqs (demo_world\<lparr>reqs := [info_request ''12'', download_url_request ''12'' ''345''],
                          out := [Reused (JStr ''Mod'')]\<rparr>) =
         reqs demo_world @ [info_request p, download_url_request p q] @ rest"
    by blast
  with run show ?thesis by simp
qed

theorem existing_targets_are_reused_witness:
  "download_manifest_file pack_record ''pack/minecraft/mods'' False demo_world =
     (Inr (), demo_world\<lparr>reqs := [info_request ''12'', download_url_request ''12'' ''345''],
                          out := [Reused (JStr ''Mod'')]\<rparr>)
   \<and> download_to_file (JStr ''https://files/forge-36.0.0-installer.jar'')
         ''pack/forge-36.0.0-installer.jar'' False demo_world = (Inl FileExistsError, demo_world)
   \<and> install_loader (JStr ''forge-1'') ''pack'' loader_json demo_world =
       (Inr (), demo_world\<lparr>out := [DownloadingLoader (JStr ''forge''), RunningInstaller, Done],
                            procs := [[''java'', ''-jar'', ''pack/forge-36.0.0-installer.jar'']]\<rparr>)"
  using existing_targets_are_reused [of pack_record demo_world info_json "''https://cdn/f/mod.jar''"
      "demo_world\<lparr>reqs := [info_request ''12'', download_url_request ''12'' ''345'']\<rparr>"
      "JBool False" "JStr ''Mod''" "''pack/minecraft/mods''"
      loader_json "JStr ''forge-36.0.0.jar''" "JStr ''https://files/forge-36.0.0.jar''"
      "''pack''" "''pack/forge-36.0.0-installer.jar''"
      "JStr ''https://files/forge-36.0.0-installer.jar''" "JStr ''forge''" "JStr ''forge-1''"]
    demo_catalog_lookup demo_mod_exists demo_installer_exists
  by (simp add: pack_record_def info_json_def loader_json_def installer_target_def as_str_def
        path_join_def startswith_def endswith_def sep_def drop_last_def demo_world_def Let_def)

text \<open>The whole second run on \<open>pack.zip\<close>: three requests, all to the catalog, and the
  mod that was there is untouched.\<close>

lemma second_run_completes:
  "fst (main [''modpack_dl.py'', ''pack.zip''] demo_world) = Inr ()"
  by code_simp

lemma second_run_requests:
  "reqs (snd (main [''modpack_dl.py'', ''pack.zip''] demo_world)) =
     [info_request ''12'', download_url_request ''12'' ''345'', modloader_request ''forge-1'']"
  by code_simp

lemma second_run_keeps_mod:
  "fs (snd (main [''modpack_dl.py'', ''pack.zip''] demo_world))
     [''home'', ''u'', ''pack'', ''minecraft'', ''mods'', ''mod.jar.disabled''] =
   Some (File (Bytes ''abcd''))"
  by code_simp

text \<open>A download whose connection breaks after the first chunk, and one that
  succeeds.\<close>

lemma fs_set_fs [simp]: "fs (set_fs f w) = f"
  by (simp add: set_fs_def put_fs_def)


text \<open>The overrides of \<open>flat.zip\<close> and of \<open>up.zip\<close>.\<close>

lemma flat_run: "fst (extract_overrides flat_zip ''flat/minecraft'' demo_world) = Inr ()"
  by code_simp

lemma flat_root:
  "resolve demo_world (path_join (tempd_of demo_world) []) = resolve demo_world (tempd_of demo_world)"
  by code_simp

lemma flat_copied:
  "fs (snd (extract_overrides flat_zip ''flat/minecraft'' demo_world))
     [''home'', ''u'', ''flat'', ''minecraft'', ''config'', ''a.cfg''] = Some (File (Bytes ''x=1''))"
  by code_simp

text \<open>
  Claim C1, as stated, fails. With the overrides path \<open>""\<close> the staging subdirectory is
  the staging root itself, not a strict descendant, yet the assertion holds, the run
  goes on and the archive's files are copied into the destination.
\<close>

theorem strict_descendant_counterexample:
  "fst (extract_overrides flat_zip ''flat/minecraft'' demo_world) = Inr ()
   \<and> \<not> strict_prefix (resolve demo_world (tempd_of demo_world))
         (resolve demo_world (path_join (tempd_of demo_world) []))
   \<and> fs (snd (extract_overrides flat_zip ''flat/minecraft'' demo_world))
        [''home'', ''u'', ''flat'', ''minecraft'', ''config'', ''a.cfg''] = Some (File (Bytes ''x=1''))"
  using flat_run flat_root flat_copied by simp

text \<open>An overrides path that leads out of the staging directory stops the run, with
  nothing copied; the run on \<open>flat.zip\<close> ends normally, and its assertion held.\<close>

lemma up_run: "fst (extract_overrides up_zip ''up/minecraft'' demo_world) = Inl AssertionError"
  by code_simp

lemma up_keys:
  "resolve demo_world (tempd_of demo_world) = [''tmp'', ''tmpq1'']"
  "resolve demo_world (path_join (tempd_of demo_world) ''../up'') = [''tmp'', ''up'']"
  by code_simp+

lemma up_before: "fs demo_world [''tmp'', ''up'', ''a.cfg''] = None"
  "fs demo_world [''home'', ''u'', ''up'', ''minecraft'', ''a.cfg''] = None"
  by code_simp+

theorem overrides_stay_in_staging_witness:
  "fst (extract_overrides up_zip ''up/minecraft'' demo_world) = Inl AssertionError
   \<and> fs (snd (extract_overrides up_zip ''up/minecraft'' demo_world)) [''tmp'', ''up'', ''a.cfg''] = None
   \<and> fs (snd (extract_overrides up_zip ''up/minecraft'' demo_world))
        [''home'', ''u'', ''up'', ''minecraft'', ''a.cfg''] = None
   \<and> fst (extract_overrides flat_zip ''flat/minecraft'' demo_world) = Inr ()
   \<and> (\<exists>txt mf or_folder.
         zip_lookup flat_zip ''manifest.json'' = Some txt \<and> json_loads demo_world txt = Some mf \<and>
         subscr mf ''overrides'' = Inr (JStr or_folder) \<and>
         is_subdir (getcwd demo_world) (path_join (tempd_of demo_world) or_folder)
           (tempd_of demo_world) = Inr True)"
proof -
  let ?X = "extract_overrides up_zip ''up/minecraft'' demo_world"
  let ?Y = "extract_overrides flat_zip ''flat/minecraft'' demo_world"
  have "?X = (fst ?X, snd ?X)" by simp
  from overrides_stay_in_staging [OF this]
  have "fst ?X = Inl AssertionError \<longrightarrow>
          below (resolve demo_world (tempd_of demo_world)) (fs demo_world) (fs (snd ?X))"
    by blast
  with up_run have b: "below [''tmp'', ''tmpq1''] (fs demo_world) (fs (snd ?X))"
    by (simp add: up_keys)
  have "fs (snd ?X) [''tmp'', ''up'', ''a.cfg''] = fs demo_world [''tmp'', ''up'', ''a.cfg'']"
    using b by (simp add: below_def)
  moreover have "fs (snd ?X) [''home'', ''u'', ''up'', ''minecraft'', ''a.cfg''] =
      fs demo_world [''home'', ''u'', ''up'', ''minecraft'', ''a.cfg'']"
    using b by (simp add: below_def)
  ultimately have up: "fst ?X = Inl AssertionError \<and>
      fs (snd ?X) [''tmp'', ''up'', ''a.cfg''] = None \<and>
      fs (snd ?X) [''home'', ''u'', ''up'', ''minecraft'', ''a.cfg''] = None"
    using up_run up_before by simp
  have "?Y = (fst ?Y, snd ?Y)" by simp
  from overrides_stay_in_staging [OF this]
  have "fst ?Y = Inr () \<longrightarrow>
     (\<exists>txt mf or_folder.
         zip_lookup flat_zip ''manifest.json'' = Some txt \<and> json_loads demo_world txt = Some mf \<and>
         subscr mf ''overrides'' = Inr (JStr or_folder) \<and>
         is_subdir (getcwd demo_world) (path_join (tempd_of demo_world) or_folder)
           (tempd_of demo_world) = Inr True)"
    by blast
  with flat_run up show ?thesis by simp
qed

text \<open>
  An error of \<open>copytree\<close> comes after the assertion, and then files have been copied:
  here the destination holds a regular file \<open>config\<close> where the archive has a directory,
  so \<open>shutil.Error\<close> is raised at the end, with \<open>manifest.json\<close> copied.
\<close>

lemma blocked_copy_run:
  "fst (andthen (os_makedirs ''flat/minecraft'') (\<lambda>u.
        andthen (open_wb ''flat/minecraft/config'') (\<lambda>fd.
        extract_overrides flat_zip ''flat/minecraft'')) demo_world) = Inl ShutilError"
  by code_simp

lemma blocked_copy_left:
  "fs (snd (andthen (os_makedirs ''flat/minecraft'') (\<lambda>u.
        andthen (open_wb ''flat/minecraft/config'') (\<lambda>fd.
        extract_overrides flat_zip ''flat/minecraft'')) demo_world))
     [''home'', ''u'', ''flat'', ''minecraft'', ''manifest.json''] = Some (File (Bytes flat_text))"
  by code_simp

lemma blocked_copy_kept:
  "fs (snd (andthen (os_makedirs ''flat/minecraft'') (\<lambda>u.
        andthen (open_wb ''flat/minecraft/config'') (\<lambda>fd.
        extract_overrides flat_zip ''flat/minecraft'')) demo_world))
     [''home'', ''u'', ''flat'', ''minecraft'', ''config''] = Some (File (Bytes []))"
  by code_simp

end
